theory Spec2Isabelle
  imports Complex_Main "HOL-Library.Word" "HOL-Library.Multiset" "HOL-Library.While_Combinator"
begin

unbundle bit_operations_syntax

section \<open>Conventions\<close>

text \<open>
  The development embeds \<^verbatim>\<open>src/utility/stddev.H\<close>.

  \<^item> \<^verbatim>\<open>uint32\<close> is \<open>32 word\<close> and \<^verbatim>\<open>uint64\<close> is \<open>64 word\<close>: \<open>+\<close>, \<open>-\<close> and \<open>*\<close>
    wrap around as the C++ operators do.
  \<^item> A \<^verbatim>\<open>double\<close> is the \<open>real\<close> number it stands for (infinities and NaN are not
    modelled), and a \<^verbatim>\<open>uint32\<close>/\<^verbatim>\<open>uint64\<close> operand of a \<^verbatim>\<open>double\<close> operation is
    converted by \<open>real (unat w)\<close>. In the online estimator every \<^verbatim>\<open>double\<close> operation
    is the exact result passed through a rounding function \<open>rnd\<close>, a parameter of the
    model: what is proved for every \<open>rnd\<close> holds however the machine rounds, and
    \<open>round64\<close> below is the rounding of IEEE 754 binary64. In the histogram engine the
    two \<^verbatim>\<open>double\<close> members are computed without rounding; nothing proved about the
    engine depends on their values.
  \<^item> \<^verbatim>\<open>fprintf(stderr, ...), exit(1)\<close> and a failed \<^verbatim>\<open>assert\<close> end the process; a
    function that can do so returns \<open>error + state\<close>, with \<open>Inl\<close> the reason.
\<close>

datatype error =
    StdDevFull            \<comment> \<open>"stdDev is full; can't insert() new value."\<close>
  | StdDevFinalized       \<comment> \<open>"stdDev has been finalized; can't insert()/remove() ..."\<close>
  | StdDevNoData          \<comment> \<open>"stdDev has no data; can't remove() old value."\<close>
  | AssertionFailed       \<comment> \<open>\<^verbatim>\<open>assert(deviation < maddatamax)\<close>\<close>

section \<open>The online estimator: class stdDev\<close>

text \<open>The private members \<^verbatim>\<open>_mn\<close>, \<^verbatim>\<open>_sn\<close> and \<^verbatim>\<open>_nn\<close>.\<close>

record stdDev =
  sd_mn :: real
  sd_sn :: real
  sd_nn :: "32 word"

text \<open>The constructor \<^verbatim>\<open>stdDev(double mn=0.0, double sn=0.0, uint32 nn=0)\<close>.\<close>

definition stdDev_new :: "real \<Rightarrow> real \<Rightarrow> 32 word \<Rightarrow> stdDev" where
  "stdDev_new mn sn nn = \<lparr>sd_mn = mn, sd_sn = sn, sd_nn = nn\<rparr>"

text \<open>
  \<^verbatim>\<open>insert(TT val)\<close>: the value is converted to \<^verbatim>\<open>double\<close> by its first use. The two
  statements \<^verbatim>\<open>_mn = m0 + (val - m0) / n0\<close> and \<^verbatim>\<open>_sn = s0 + (val - m0) * (val - _mn)\<close>
  are three and four \<^verbatim>\<open>double\<close> operations (\<^verbatim>\<open>val - m0\<close> has the same result both
  times), each rounded.
\<close>

definition stdDev_insert :: "(real \<Rightarrow> real) \<Rightarrow> real \<Rightarrow> stdDev \<Rightarrow> error + stdDev" where
  "stdDev_insert rnd val s =
     (let m0 = sd_mn s;
          s0 = sd_sn s;
          n0 = sd_nn s + 1
      in if sd_nn s = 0x7fffffff then Inl StdDevFull
         else if sd_nn s AND 0x80000000 \<noteq> 0 then Inl StdDevFinalized
         else
           let mn' = rnd (m0 + rnd (rnd (val - m0) / real (unat n0)));
               sn' = rnd (s0 + rnd (rnd (val - m0) * rnd (val - mn')))
           in Inr \<lparr>sd_mn = mn', sd_sn = sn', sd_nn = n0\<rparr>)"

definition stdDev_remove :: "(real \<Rightarrow> real) \<Rightarrow> real \<Rightarrow> stdDev \<Rightarrow> error + stdDev" where
  "stdDev_remove rnd val s =
     (let n0 = sd_nn s - 1;
          m0 = (if n0 = 0 then 0
                else rnd (rnd (rnd (real (unat (sd_nn s)) * sd_mn s) - val) / real (unat n0)));
          s0 = rnd (sd_sn s - rnd (rnd (val - m0) * rnd (val - sd_mn s)))
      in if sd_nn s = 0 then Inl StdDevNoData
         else if sd_nn s AND 0x80000000 \<noteq> 0 then Inl StdDevFinalized
         else Inr \<lparr>sd_mn = m0, sd_sn = s0, sd_nn = n0\<rparr>)"

definition stdDev_size :: "stdDev \<Rightarrow> 32 word" where
  "stdDev_size s = sd_nn s AND 0x7fffffff"

definition stdDev_mean :: "stdDev \<Rightarrow> real" where
  "stdDev_mean s = sd_mn s"

definition stdDev_variance :: "(real \<Rightarrow> real) \<Rightarrow> stdDev \<Rightarrow> real" where
  "stdDev_variance rnd s =
     (if sd_nn s AND 0x80000000 \<noteq> 0 then rnd (sd_sn s * sd_sn s)
      else (if sd_nn s < 2 then 0 else rnd (sd_sn s / real (unat (sd_nn s - 1)))))"

definition stdDev_stddev :: "(real \<Rightarrow> real) \<Rightarrow> stdDev \<Rightarrow> real" where
  "stdDev_stddev rnd s =
     (if sd_nn s AND 0x80000000 \<noteq> 0 then sd_sn s
      else rnd (sqrt (stdDev_variance rnd s)))"

definition stdDev_finalize :: "(real \<Rightarrow> real) \<Rightarrow> stdDev \<Rightarrow> stdDev" where
  "stdDev_finalize rnd s = s\<lparr>sd_sn := stdDev_stddev rnd s, sd_nn := sd_nn s OR 0x80000000\<rparr>"

text \<open>The finalized flag is the top bit of \<^verbatim>\<open>_nn\<close>, tested as \<^verbatim>\<open>_nn & 0x80000000\<close>.\<close>

definition stdDev_finalized :: "stdDev \<Rightarrow> bool" where
  "stdDev_finalized s = (sd_nn s AND 0x80000000 \<noteq> 0)"

subsection \<open>Rounding\<close>

text \<open>
  The rounding of IEEE 754 binary64 in its default mode, for results in the normal
  range: the nearest number with a significand of 53 bits, a tie going to the even
  significand. For \<open>x \<noteq> 0\<close> the exponent \<open>e\<close> is the one that puts \<open>\<bar>x\<bar> / 2^e\<close> between
  \<open>2^52\<close> and \<open>2^53\<close>; the quotient is rounded to an integer and scaled back.
\<close>

definition round_half_even :: "real \<Rightarrow> int" where
  "round_half_even y =
     (let f = \<lfloor>y\<rfloor>
      in if y - of_int f < 1 / 2 then f
         else if 1 / 2 < y - of_int f then f + 1
         else if even f then f else f + 1)"

definition round64 :: "real \<Rightarrow> real" where
  "round64 x =
     (if x = 0 then 0
      else let e = \<lfloor>log 2 \<bar>x\<bar>\<rfloor> - 52
           in of_int (round_half_even (x / 2 powr of_int e)) * 2 powr of_int e)"

text \<open>
  The exact results of the operations that \<open>insert(val)\<close> and then \<open>remove(val)\<close>
  perform on a state whose count is not zero, in the order of the source: seven
  operations in each call, with twelve different results (\<open>insert\<close> computes
  \<^verbatim>\<open>val - m0\<close> twice, and \<open>remove\<close> computes \<^verbatim>\<open>val - _mn\<close> again, with the result
  \<open>t\<close>). When \<open>rnd\<close> leaves each of them as it is, no operation of the two calls
  rounds.
\<close>

definition insert_remove_values :: "real \<Rightarrow> stdDev \<Rightarrow> real list" where
  "insert_remove_values val s =
     (let m = sd_mn s;
          n = real (unat (sd_nn s));
          d = val - m;
          q = d / (n + 1);
          m1 = m + q;
          t = val - m1;
          p = d * t;
          s1 = sd_sn s + p;
          u1 = (n + 1) * m1;
          u2 = u1 - val;
          m0 = u2 / n;
          u3 = val - m0;
          u5 = u3 * t;
          s0 = s1 - u5
      in [d, q, m1, t, p, s1, u1, u2, m0, u3, u5, s0])"

section \<open>The free function computeMode\<close>

text \<open>
  \<^verbatim>\<open>computeMode(vector<TT> dist, TT &mode, bool isSorted)\<close>, with \<open>ds\<close> for the
  vector \<^verbatim>\<open>dist\<close>. The element type \<^verbatim>\<open>TT\<close> is
  any linearly ordered type with a zero; the two counters are \<^verbatim>\<open>uint32\<close>. The loop
  \<^verbatim>\<open>for (uint64 x=0; x<dist.size(); x++)\<close> walks the vector front to back and is the
  recursion over the list; its four local variables are the four accumulators. When a
  new run starts the source sets \<^verbatim>\<open>modeTmpCnt = 1\<close> and then falls through to the
  \<^verbatim>\<open>modeTmpCnt++\<close> that ends every iteration, written \<open>1 + 1\<close> below.
\<close>

fun computeMode_loop ::
  "'a::{zero,linorder} list \<Rightarrow> 32 word \<Rightarrow> 'a \<Rightarrow> 32 word \<Rightarrow> 'a \<Rightarrow> 32 word \<times> 'a \<times> 32 word \<times> 'a"
where
  "computeMode_loop [] modeCnt modeVal modeTmpCnt modeTmpVal =
     (modeCnt, modeVal, modeTmpCnt, modeTmpVal)"
| "computeMode_loop (d # ds) modeCnt modeVal modeTmpCnt modeTmpVal =
     (if d \<noteq> modeTmpVal then
        (if modeCnt < modeTmpCnt
         then computeMode_loop ds modeTmpCnt modeTmpVal (1 + 1) d
         else computeMode_loop ds modeCnt modeVal (1 + 1) d)
      else computeMode_loop ds modeCnt modeVal (modeTmpCnt + 1) modeTmpVal)"

definition computeMode :: "'a::{zero,linorder} list \<Rightarrow> bool \<Rightarrow> 'a" where
  "computeMode ds isSorted =
     (if length ds = 0 then 0
      else
        let ds' = (if isSorted = False then sort ds else ds);
            (modeCnt, modeVal, modeTmpCnt, modeTmpVal) = computeMode_loop ds' 0 0 0 0
        in if modeCnt < modeTmpCnt then modeTmpVal else modeVal)"

section \<open>The histogram engine: class histogramStatistics\<close>

text \<open>
  The members of the class. The array \<^verbatim>\<open>uint64 *_histogram\<close> is a store from index
  to counter; \<^verbatim>\<open>_histogramAlloc\<close> says how much of it is allocated. Cells that are not
  allocated read as 0 in the store; the class never reads them, since it keeps
  \<^verbatim>\<open>_histogramMax < _histogramAlloc\<close>.
\<close>

record histogramStatistics =
  hs_finalized :: bool
  hs_histogramAlloc :: "64 word"
  hs_histogramMax :: "64 word"
  hs_histogram :: "64 word \<Rightarrow> 64 word"
  hs_numObjs :: "64 word"
  hs_mean :: real
  hs_stddev :: real
  hs_mode :: "64 word"
  hs_median :: "64 word"
  hs_mad :: "64 word"

definition clearStatistics :: "histogramStatistics \<Rightarrow> histogramStatistics" where
  "clearStatistics s =
     s\<lparr>hs_numObjs := 0, hs_mean := 0, hs_stddev := 0, hs_mode := 0, hs_median := 0, hs_mad := 0\<rparr>"

text \<open>
  The constructor: one mebi-cell of zeroes, nothing seen yet, cache dirty, statistics
  cleared.
\<close>

definition histogramStatistics_new :: histogramStatistics where
  "histogramStatistics_new =
     clearStatistics
       \<lparr>hs_finalized = False, hs_histogramAlloc = 1024 * 1024, hs_histogramMax = 0,
        hs_histogram = (\<lambda>_. 0), hs_numObjs = 0, hs_mean = 0, hs_stddev = 0,
        hs_mode = 0, hs_median = 0, hs_mad = 0\<rparr>"

text \<open>
  Modelled from the spec: \<^verbatim>\<open>resizeArray\<close> (declared in another header of the repository,
  not in this file). The spec of \<^verbatim>\<open>add\<close> says that it "grows the backing array
  (geometric doubling) if value exceeds current capacity, zero-filling the newly
  allocated region". With the flags \<^verbatim>\<open>resizeArray_copyData | resizeArray_clearNew\<close> the
  first \<open>arrayLen\<close> cells are kept, every other cell of the new array is zero, and the
  capacity becomes \<open>newMax\<close>. The result is the new array and the new capacity.
\<close>

definition resizeArray ::
  "(64 word \<Rightarrow> 64 word) \<Rightarrow> 64 word \<Rightarrow> 64 word \<Rightarrow> 64 word \<Rightarrow> (64 word \<Rightarrow> 64 word) \<times> 64 word"
where
  "resizeArray array arrayLen arrayMax newMax =
     ((\<lambda>i. if i < arrayLen then array i else 0), newMax)"

text \<open>
  \<^verbatim>\<open>add(uint64 data, uint32 count=1)\<close>, with \<open>cnt\<close> for \<^verbatim>\<open>count\<close>. The \<^verbatim>\<open>while\<close>
  loop doubles the capacity until it exceeds \<open>data\<close>; in 64-bit arithmetic that never
  happens when \<open>data \<ge> 2^63\<close>, and the call does not return: the result is \<open>None\<close>.
\<close>

definition add :: "64 word \<Rightarrow> 32 word \<Rightarrow> histogramStatistics \<Rightarrow> histogramStatistics option" where
  "add data cnt s =
     (case while_option
             (\<lambda>(array, alloc). alloc \<le> data)
             (\<lambda>(array, alloc). resizeArray array (hs_histogramMax s + 1) alloc (alloc * 2))
             (hs_histogram s, hs_histogramAlloc s)
      of None \<Rightarrow> None
       | Some (array, alloc) \<Rightarrow>
           Some (s\<lparr>hs_histogramAlloc := alloc,
                   hs_histogramMax := (if hs_histogramMax s < data then data else hs_histogramMax s),
                   hs_histogram := array(data := array data + ucast cnt),
                   hs_finalized := False\<rparr>))"

text \<open>
  The index range of every \<^verbatim>\<open>for (uint64 ii=0; ii <= _histogramMax; ii++)\<close> loop, in
  the order the loop visits it. The loop ends because \<^verbatim>\<open>_histogramMax\<close> is below the
  capacity and so is not the largest 64-bit value.
\<close>

definition indices :: "64 word \<Rightarrow> 64 word list" where
  "indices histogramMax = map of_nat [0..<Suc (unat histogramMax)]"

text \<open>
  Each loop of \<^verbatim>\<open>finalizeData\<close>, started from the cleared member it updates.
  An operand of type \<^verbatim>\<open>uint64\<close> in a \<^verbatim>\<open>double\<close> expression is converted after the
  integer operation: \<^verbatim>\<open>ii * _histogram[ii]\<close> is a 64-bit product.
\<close>

definition numObjs_loop :: "(64 word \<Rightarrow> 64 word) \<Rightarrow> 64 word list \<Rightarrow> 64 word \<Rightarrow> 64 word" where
  "numObjs_loop h is numObjs0 = fold (\<lambda>ii numObjs. numObjs + h ii) is numObjs0"

definition mean_loop :: "(64 word \<Rightarrow> 64 word) \<Rightarrow> 64 word list \<Rightarrow> real \<Rightarrow> real" where
  "mean_loop h is mean0 = fold (\<lambda>ii mean. mean + real (unat (ii * h ii))) is mean0"

definition stddev_loop :: "(64 word \<Rightarrow> 64 word) \<Rightarrow> real \<Rightarrow> 64 word list \<Rightarrow> real \<Rightarrow> real" where
  "stddev_loop h mean is stddev0 =
     fold (\<lambda>ii stddev. stddev + real (unat (h ii)) * (real (unat ii) - mean) * (real (unat ii) - mean))
       is stddev0"

definition mode_loop :: "(64 word \<Rightarrow> 64 word) \<Rightarrow> 64 word list \<Rightarrow> 64 word \<Rightarrow> 64 word" where
  "mode_loop h is mode0 = fold (\<lambda>ii mode. if h ii > h mode then ii else mode) is mode0"

text \<open>
  The median loop adds buckets into \<^verbatim>\<open>_median\<close> and, at the first index where the sum
  has reached \<^verbatim>\<open>_numObjs / 2\<close>, overwrites it with the index and breaks. If the loop
  ends without a break the member keeps the sum. The loop that finds \<^verbatim>\<open>_mad\<close> in
  \<^verbatim>\<open>maddata\<close> is the same loop on the other array.
\<close>

fun median_loop :: "(64 word \<Rightarrow> 64 word) \<Rightarrow> 64 word \<Rightarrow> 64 word list \<Rightarrow> 64 word \<Rightarrow> 64 word" where
  "median_loop h half [] median = median"
| "median_loop h half (ii # is) median =
     (if median + h ii \<ge> half then ii
      else median_loop h half is (median + h ii))"

text \<open>
  The loop that fills \<^verbatim>\<open>maddata\<close>, the histogram of absolute deviations from the
  median; \<^verbatim>\<open>assert(deviation < maddatamax)\<close> ends the process when it fails.
\<close>

fun maddata_loop ::
  "(64 word \<Rightarrow> 64 word) \<Rightarrow> 64 word \<Rightarrow> 64 word \<Rightarrow> 64 word list \<Rightarrow> (64 word \<Rightarrow> 64 word)
     \<Rightarrow> error + (64 word \<Rightarrow> 64 word)"
where
  "maddata_loop h median maddatamax [] maddata = Inr maddata"
| "maddata_loop h median maddatamax (ii # is) maddata =
     (if h ii > 0 then
        (let deviation = (if ii < median then median - ii else ii - median)
         in if deviation \<ge> maddatamax then Inl AssertionFailed
            else maddata_loop h median maddatamax is
                   (maddata(deviation := maddata deviation + h ii)))
      else maddata_loop h median maddatamax is maddata)"

definition finalizeData :: "histogramStatistics \<Rightarrow> error + histogramStatistics" where
  "finalizeData s =
     (if hs_finalized s = True then Inr s
      else
        let s0 = clearStatistics s;
            h = hs_histogram s0;
            is = indices (hs_histogramMax s0);
            numObjs = numObjs_loop h is (hs_numObjs s0);
            mean1 = mean_loop h is (hs_mean s0);
            mean = (if numObjs > 1 then mean1 / real (unat numObjs) else mean1);
            stddev1 = stddev_loop h mean is (hs_stddev s0);
            stddev = (if numObjs > 1 then sqrt (stddev1 / real (unat (numObjs - 1))) else stddev1);
            mode = mode_loop h is (hs_mode s0);
            median = median_loop h (numObjs div 2) is (hs_median s0);
            maddatamax = hs_histogramMax s0 + 1
        in case maddata_loop h median maddatamax is (\<lambda>_. 0) of
             Inl e \<Rightarrow> Inl e
           | Inr maddata \<Rightarrow>
               Inr (s0\<lparr>hs_numObjs := numObjs, hs_mean := mean, hs_stddev := stddev,
                       hs_mode := mode, hs_median := median,
                       hs_mad := median_loop maddata (numObjs div 2) is (hs_mad s0),
                       hs_finalized := True\<rparr>))"

text \<open>
  The accessors. Each returns its value and the object after the call; those that call
  \<^verbatim>\<open>finalizeData\<close> fail when it does.
\<close>

definition numberOfObjects :: "histogramStatistics \<Rightarrow> error + 64 word \<times> histogramStatistics" where
  "numberOfObjects s = (case finalizeData s of Inl e \<Rightarrow> Inl e | Inr s' \<Rightarrow> Inr (hs_numObjs s', s'))"

definition mean :: "histogramStatistics \<Rightarrow> error + real \<times> histogramStatistics" where
  "mean s = (case finalizeData s of Inl e \<Rightarrow> Inl e | Inr s' \<Rightarrow> Inr (hs_mean s', s'))"

definition stddev :: "histogramStatistics \<Rightarrow> error + real \<times> histogramStatistics" where
  "stddev s = (case finalizeData s of Inl e \<Rightarrow> Inl e | Inr s' \<Rightarrow> Inr (hs_stddev s', s'))"

definition median :: "histogramStatistics \<Rightarrow> error + 64 word \<times> histogramStatistics" where
  "median s = (case finalizeData s of Inl e \<Rightarrow> Inl e | Inr s' \<Rightarrow> Inr (hs_median s', s'))"

definition mad :: "histogramStatistics \<Rightarrow> error + 64 word \<times> histogramStatistics" where
  "mad s = (case finalizeData s of Inl e \<Rightarrow> Inl e | Inr s' \<Rightarrow> Inr (hs_mad s', s'))"

definition histogram :: "64 word \<Rightarrow> histogramStatistics \<Rightarrow> 64 word \<times> histogramStatistics" where
  "histogram ii s = (hs_histogram s ii, s)"

definition histogramMax :: "histogramStatistics \<Rightarrow> 64 word \<times> histogramStatistics" where
  "histogramMax s = (hs_histogramMax s, s)"

section \<open>Call sequences and sample multisets\<close>

text \<open>
  A client that calls \<^verbatim>\<open>add\<close> once for every pair of a list, in the order of the list.
  The result is \<open>None\<close> when one of the calls does not return.
\<close>

fun add_all :: "(64 word \<times> 32 word) list \<Rightarrow> histogramStatistics \<Rightarrow> histogramStatistics option" where
  "add_all [] s = Some s"
| "add_all ((d, c) # ps) s = (case add d c s of None \<Rightarrow> None | Some s' \<Rightarrow> add_all ps s')"

text \<open>The samples that a list of (value, count) pairs stands for, as a multiset.\<close>

definition samples :: "(64 word \<times> 32 word) list \<Rightarrow> 64 word multiset" where
  "samples ps = sum_list (map (\<lambda>(d, c). replicate_mset (unat c) d) ps)"

text \<open>
  The five statistics that \<^verbatim>\<open>finalizeData\<close> caches besides the number of objects, read
  from an object after recomputation.
\<close>

definition statistics :: "histogramStatistics \<Rightarrow> error + real \<times> real \<times> 64 word \<times> 64 word \<times> 64 word" where
  "statistics s =
     (case finalizeData s of
        Inl e \<Rightarrow> Inl e
      | Inr s' \<Rightarrow> Inr (hs_mean s', hs_stddev s', hs_mode s', hs_median s', hs_mad s'))"

text \<open>
  The invariant of the objects that the constructor and \<^verbatim>\<open>add\<close> build: the capacity is
  a power of two between \<open>2^20\<close> and \<open>2^63\<close>, it exceeds the high-water index, it is the
  least such power that does, and every bucket above the high-water index is zero.
\<close>

definition capacity_inv :: "histogramStatistics \<Rightarrow> bool" where
  "capacity_inv s \<longleftrightarrow>
     (\<exists>k. 20 \<le> k \<and> k \<le> 63 \<and> hs_histogramAlloc s = 2 ^ k \<and>
          unat (hs_histogramMax s) < 2 ^ k \<and> (20 < k \<longrightarrow> 2 ^ (k - 1) \<le> unat (hs_histogramMax s))) \<and>
     (\<forall>i. hs_histogramMax s < i \<longrightarrow> hs_histogram s i = 0)"

section \<open>Properties of the online estimator\<close>

subsection \<open>The flag bit and the count\<close>

lemma flag_iff_bit: "(w AND 0x80000000 \<noteq> 0) \<longleftrightarrow> bit (w::32 word) 31"
  using and_exp_eq_0_iff_not_bit[of w 31] by simp

lemma odd_upper_half:
  "(n::nat) < 4294967296 \<Longrightarrow> odd (n div 2147483648) \<longleftrightarrow> 2147483648 \<le> n"
proof (cases "n < 2147483648")
  case True
  then show ?thesis by simp
next
  case False
  assume "n < 4294967296"
  with False have "n div 2147483648 = 1" by (intro div_nat_eqI) simp_all
  with False show ?thesis by simp
qed

lemma bit31_unat: "bit (w::32 word) 31 \<longleftrightarrow> 2147483648 \<le> unat w"
proof -
  have "bit w 31 \<longleftrightarrow> bit (unat w) 31" by (simp add: bit_unsigned_iff)
  also have "\<dots> \<longleftrightarrow> odd (unat w div 2147483648)" by (simp add: bit_iff_odd)
  also have "\<dots> \<longleftrightarrow> 2147483648 \<le> unat w"
  proof -
    have "unat w < 4294967296" using unsigned_less[of w, where 'a=nat] by simp
    then show ?thesis by (rule odd_upper_half)
  qed
  finally show ?thesis .
qed

lemma flag_unat: "(w AND 0x80000000 \<noteq> 0) \<longleftrightarrow> 2147483648 \<le> unat (w::32 word)"
  using flag_iff_bit bit31_unat by blast

lemma low31_id: "unat w < 2147483648 \<Longrightarrow> (w::32 word) AND 0x7fffffff = w"
proof -
  assume "unat w < 2147483648"
  then have "w < 2^31" by (simp add: word_less_nat_alt)
  then have "w AND mask 31 = w" by (rule less_mask_eq)
  then show ?thesis by (simp add: mask_eq_exp_minus_1)
qed

lemma or_flag_set: "((w::32 word) OR 0x80000000) AND 0x80000000 \<noteq> 0"
  using bit_or_iff[of w "2^31" 31] flag_iff_bit[of "w OR 0x80000000"] by (simp add: bit_exp_iff)

lemma stdDev_finalized_unat: "stdDev_finalized s \<longleftrightarrow> 2147483648 \<le> unat (sd_nn s)"
  by (simp add: stdDev_finalized_def flag_unat)

lemma stdDev_size_not_finalized: "\<not> stdDev_finalized s \<Longrightarrow> stdDev_size s = sd_nn s"
  by (simp add: stdDev_finalized_unat stdDev_size_def low31_id)

subsection \<open>Rounding to binary64\<close>

lemma two_powr_diff: "(2::real) powr (real p - real k) = 2 ^ p / 2 ^ k"
  by (simp add: powr_diff powr_realpow)

lemma floor_log2_scaled:
  fixes x :: real and k p :: nat
  assumes pos: "0 < x" and lo: "2 ^ p \<le> x * 2 ^ k" and hi: "x * 2 ^ k < 2 ^ Suc p"
  shows "\<lfloor>log 2 x\<rfloor> = int p - int k"
proof -
  have a: "(2::real) powr of_int (int p - int k) = 2 ^ p / 2 ^ k"
    using two_powr_diff[of p k] by simp
  have "real (Suc p) - real k = of_int (int p - int k) + 1" by simp
  then have b: "(2::real) powr (of_int (int p - int k) + 1) = 2 ^ Suc p / 2 ^ k"
    using two_powr_diff[of "Suc p" k] by (simp only:)
  have "2 powr of_int (int p - int k) \<le> x" unfolding a using lo by (simp add: field_simps)
  moreover have "x < 2 powr (of_int (int p - int k) + 1)"
    unfolding b using hi by (simp add: field_simps)
  ultimately show ?thesis
    using floor_log_eq_powr_iff[OF pos, of 2 "int p - int k"] by simp
qed

lemma round64_scaled:
  fixes x :: real and k :: nat
  assumes lo: "2 ^ 52 \<le> \<bar>x\<bar> * 2 ^ k" and hi: "\<bar>x\<bar> * 2 ^ k < 2 ^ Suc 52"
  shows "round64 x = of_int (round_half_even (x * 2 ^ k)) / 2 ^ k"
proof -
  have x0: "x \<noteq> 0" using lo by auto
  then have pos: "0 < \<bar>x\<bar>" by simp
  have fl: "\<lfloor>log 2 \<bar>x\<bar>\<rfloor> - 52 = - int k"
    using floor_log2_scaled[OF pos lo hi] by simp
  have e: "(2::real) powr of_int (- int k) = 1 / 2 ^ k"
    using two_powr_diff[of 0 k] by simp
  show ?thesis unfolding round64_def Let_def fl e using x0 by simp
qed

lemma round64_0: "round64 0 = 0"
  by (simp add: round64_def)

lemma round64_exact:
  fixes x :: real and k :: nat
  assumes xm: "x * 2 ^ k = of_int m" and lo: "2 ^ 52 \<le> \<bar>m\<bar>" and hi: "\<bar>m\<bar> < 2 ^ Suc 52"
  shows "round64 x = x"
proof -
  have "\<bar>x * 2 ^ k\<bar> = \<bar>of_int m :: real\<bar>" using xm by simp
  then have a: "\<bar>x\<bar> * 2 ^ k = of_int \<bar>m\<bar>" by (simp add: abs_mult)
  have "(of_int (2 ^ 52) :: real) \<le> of_int \<bar>m\<bar>" using lo by (simp only: of_int_le_iff)
  then have lo': "2 ^ 52 \<le> \<bar>x\<bar> * 2 ^ k" unfolding a by simp
  have "(of_int \<bar>m\<bar> :: real) < of_int (2 ^ Suc 52)" using hi by (simp only: of_int_less_iff)
  then have hi': "\<bar>x\<bar> * 2 ^ k < 2 ^ Suc 52" unfolding a by simp
  have "round_half_even (x * 2 ^ k) = m"
    unfolding xm round_half_even_def by simp
  then have "round64 x = of_int m / 2 ^ k" using round64_scaled[OF lo' hi'] by simp
  also have "\<dots> = x" using xm by (simp add: field_simps)
  finally show ?thesis .
qed

lemma round64_small_ints:
  "round64 1 = 1" "round64 2 = 2" "round64 3 = 3" "round64 4 = 4" "round64 6 = 6"
  "round64 (- 4) = - 4"
proof -
  show "round64 1 = 1" by (rule round64_exact[where k = 52 and m = "2 ^ 52"]) simp_all
  show "round64 2 = 2" by (rule round64_exact[where k = 51 and m = "2 ^ 52"]) simp_all
  show "round64 3 = 3" by (rule round64_exact[where k = 51 and m = "3 * 2 ^ 51"]) simp_all
  show "round64 4 = 4" by (rule round64_exact[where k = 50 and m = "2 ^ 52"]) simp_all
  show "round64 6 = 6" by (rule round64_exact[where k = 50 and m = "3 * 2 ^ 51"]) simp_all
  show "round64 (- 4) = - 4" by (rule round64_exact[where k = 50 and m = "- (2 ^ 52)"]) simp_all
qed

lemma round64_12_14:
  "round64 12 = 12"
  "round64 14 = 14"
proof -
  show "round64 12 = 12"
    using round64_scaled[of 12 49] by (simp add: round_half_even_def)
  show "round64 14 = 14"
    using round64_scaled[of 14 49] by (simp add: round_half_even_def)
qed

subsection \<open>finalize\<close>

text \<open>
  Claim C6. For every estimator state and however the arithmetic rounds, \<open>stddev()\<close>
  after \<open>finalize()\<close> is the value that \<open>stddev()\<close> had just before, and \<open>variance()\<close>
  after \<open>finalize()\<close> is the square of that value, as the \<^verbatim>\<open>double\<close> product computes
  it.
\<close>

theorem finalize_keeps_stddev:
  "stdDev_stddev rnd (stdDev_finalize rnd s) = stdDev_stddev rnd s \<and>
   stdDev_variance rnd (stdDev_finalize rnd s) = rnd (stdDev_stddev rnd s * stdDev_stddev rnd s)"
  by (simp add: stdDev_finalize_def stdDev_stddev_def stdDev_variance_def or_flag_set)

theorem finalize_keeps_stddev_witness:
  "stdDev_stddev round64 (stdDev_finalize round64 (stdDev_new 3 8 3)) = 2 \<and>
   stdDev_variance round64 (stdDev_finalize round64 (stdDev_new 3 8 3)) = 4"
proof -
  have "stdDev_stddev round64 (stdDev_new 3 8 3) = 2"
    by (simp add: stdDev_stddev_def stdDev_variance_def stdDev_new_def round64_small_ints)
  then show ?thesis
    using finalize_keeps_stddev[of round64 "stdDev_new 3 8 3"] by (simp add: round64_small_ints)
qed

subsection \<open>When insert and remove fail\<close>

text \<open>
  Claim C7. \<open>insert\<close> ends the process exactly when the sample count is \<open>2^31 - 1\<close> or
  the estimator is finalized, and \<open>remove\<close> exactly when the sample count is zero or the
  estimator is finalized; in every other state each returns a new state. A failing call
  returns no state: the members are assigned only after both checks.
\<close>

theorem insert_remove_fail_iff:
  "(isl (stdDev_insert rnd v s) \<longleftrightarrow> stdDev_size s = 0x7fffffff \<or> stdDev_finalized s) \<and>
   (isl (stdDev_remove rnd v s) \<longleftrightarrow> stdDev_size s = 0 \<or> stdDev_finalized s)"
proof (cases "stdDev_finalized s")
  case True
  then show ?thesis
    by (auto simp add: stdDev_insert_def stdDev_remove_def stdDev_finalized_def Let_def)
next
  case False
  then have "stdDev_size s = sd_nn s" by (rule stdDev_size_not_finalized)
  with False show ?thesis
    by (simp add: stdDev_insert_def stdDev_remove_def stdDev_finalized_def Let_def)
qed

theorem insert_remove_fail_iff_witness:
  "isl (stdDev_insert round64 1 (stdDev_new 0 0 0x7fffffff)) \<and>
   isl (stdDev_insert round64 1 (stdDev_new 0 0 0x80000003)) \<and>
   \<not> isl (stdDev_insert round64 1 (stdDev_new 0 0 3)) \<and>
   isl (stdDev_remove round64 1 (stdDev_new 0 0 0)) \<and>
   isl (stdDev_remove round64 1 (stdDev_new 0 0 0x80000003)) \<and>
   \<not> isl (stdDev_remove round64 1 (stdDev_new 0 0 3))"
proof -
  have sz: "stdDev_size (stdDev_new 0 0 0x7fffffff) = 0x7fffffff"
      "stdDev_size (stdDev_new 0 0 0x80000003) = 3"
      "stdDev_size (stdDev_new 0 0 3) = 3"
      "stdDev_size (stdDev_new 0 0 0) = 0"
    by (simp_all add: stdDev_size_def stdDev_new_def)
  have fl: "\<not> stdDev_finalized (stdDev_new 0 0 0x7fffffff)"
      "stdDev_finalized (stdDev_new 0 0 0x80000003)"
      "\<not> stdDev_finalized (stdDev_new 0 0 3)"
      "\<not> stdDev_finalized (stdDev_new 0 0 0)"
    by (simp_all add: stdDev_finalized_def stdDev_new_def)
  show ?thesis
    using insert_remove_fail_iff[of round64 1 "stdDev_new 0 0 0x7fffffff"]
      insert_remove_fail_iff[of round64 1 "stdDev_new 0 0 0x80000003"]
      insert_remove_fail_iff[of round64 1 "stdDev_new 0 0 3"]
      insert_remove_fail_iff[of round64 1 "stdDev_new 0 0 0"]
    by (simp add: sz fl)
qed

subsection \<open>insert followed by remove\<close>

lemma insert_ok:
  assumes nf: "\<not> stdDev_finalized s" and nfull: "stdDev_size s \<noteq> 0x7fffffff"
  shows "stdDev_insert rnd v s =
           Inr \<lparr>sd_mn = rnd (sd_mn s + rnd (rnd (v - sd_mn s) / (real (unat (sd_nn s)) + 1))),
                sd_sn = rnd (sd_sn s + rnd (rnd (v - sd_mn s) *
                          rnd (v - rnd (sd_mn s + rnd (rnd (v - sd_mn s) / (real (unat (sd_nn s)) + 1)))))),
                sd_nn = sd_nn s + 1\<rparr>"
    and "unat (sd_nn s + 1) = Suc (unat (sd_nn s))"
    and "unat (sd_nn s + 1) < 2147483648"
proof -
  have sz: "stdDev_size s = sd_nn s" using nf by (rule stdDev_size_not_finalized)
  have lt: "unat (sd_nn s) < 2147483648" using nf by (simp add: stdDev_finalized_unat)
  have ne: "unat (sd_nn s) \<noteq> 2147483647" using nfull sz
    by (simp add: word_unat_eq_iff)
  show u: "unat (sd_nn s + 1) = Suc (unat (sd_nn s))"
    using lt by (simp add: unat_word_ariths)
  show "unat (sd_nn s + 1) < 2147483648" using u lt ne by simp
  have ur: "real (unat (sd_nn s + 1)) = real (unat (sd_nn s)) + 1" using u by simp
  show "stdDev_insert rnd v s =
           Inr \<lparr>sd_mn = rnd (sd_mn s + rnd (rnd (v - sd_mn s) / (real (unat (sd_nn s)) + 1))),
                sd_sn = rnd (sd_sn s + rnd (rnd (v - sd_mn s) *
                          rnd (v - rnd (sd_mn s + rnd (rnd (v - sd_mn s) / (real (unat (sd_nn s)) + 1)))))),
                sd_nn = sd_nn s + 1\<rparr>"
    unfolding stdDev_insert_def Let_def ur
    using nf nfull sz by (simp add: stdDev_finalized_def)
qed

lemma remove_after_insert:
  assumes u: "unat (nn + 1) = Suc (unat nn)" and lt: "unat (nn + 1) < 2147483648"
  shows "stdDev_remove rnd v \<lparr>sd_mn = M1, sd_sn = S1, sd_nn = nn + 1\<rparr> =
           Inr \<lparr>sd_mn = (if nn = 0 then 0
                          else rnd (rnd (rnd ((real (unat nn) + 1) * M1) - v) / real (unat nn))),
                sd_sn = rnd (S1 - rnd (rnd (v - (if nn = 0 then 0
                          else rnd (rnd (rnd ((real (unat nn) + 1) * M1) - v) / real (unat nn)))) *
                          rnd (v - M1))),
                sd_nn = nn\<rparr>"
proof -
  have ne0: "nn + 1 \<noteq> 0" using u by (metis Zero_not_Suc unat_0)
  have nfl: "nn + 1 AND 0x80000000 = 0" using lt flag_unat[of "nn + 1"] by simp
  have ur: "real (unat (nn + 1)) = real (unat nn) + 1" using u by simp
  have sel: "sd_nn \<lparr>sd_mn = M1, sd_sn = S1, sd_nn = nn + 1\<rparr> = nn + 1"
    "sd_mn \<lparr>sd_mn = M1, sd_sn = S1, sd_nn = nn + 1\<rparr> = M1"
    "sd_sn \<lparr>sd_mn = M1, sd_sn = S1, sd_nn = nn + 1\<rparr> = S1"
    by simp_all
  have m1: "nn + 1 - 1 = nn" by simp
  show ?thesis
    unfolding stdDev_remove_def Let_def sel ur m1
    using ne0 nfl by simp
qed

text \<open>
  Claim C3, as the source has it. On every state that is not finalized and not full,
  and however the arithmetic rounds, \<open>insert(v)\<close> followed by \<open>remove(v)\<close> returns and
  restores the count. When the count was zero the mean afterwards is 0, whatever it was
  before, and the variance reads 0 as before. When the count was not zero and no
  operation of the two calls rounds, the mean and the variance are restored.
\<close>

theorem insert_remove_restores:
  assumes nf: "\<not> stdDev_finalized s" and nfull: "stdDev_size s \<noteq> 0x7fffffff"
  shows "\<exists>s1 s2. stdDev_insert rnd v s = Inr s1 \<and> stdDev_remove rnd v s1 = Inr s2 \<and>
           stdDev_size s2 = stdDev_size s \<and>
           (stdDev_size s = 0 \<longrightarrow>
              stdDev_mean s2 = 0 \<and> stdDev_variance rnd s2 = stdDev_variance rnd s) \<and>
           (stdDev_size s \<noteq> 0 \<and> (\<forall>x \<in> set (insert_remove_values v s). rnd x = x) \<longrightarrow>
              stdDev_mean s2 = stdDev_mean s \<and> stdDev_variance rnd s2 = stdDev_variance rnd s)"
proof -
  define m where "m = sd_mn s"
  define N where "N = real (unat (sd_nn s))"
  define M1 where "M1 = rnd (m + rnd (rnd (v - m) / (N + 1)))"
  define S1 where "S1 = rnd (sd_sn s + rnd (rnd (v - m) * rnd (v - M1)))"
  define M0 where "M0 = (if sd_nn s = 0 then 0 else rnd (rnd (rnd ((N + 1) * M1) - v) / N))"
  define S0 where "S0 = rnd (S1 - rnd (rnd (v - M0) * rnd (v - M1)))"
  define s1 where "s1 = \<lparr>sd_mn = M1, sd_sn = S1, sd_nn = sd_nn s + 1\<rparr>"
  define s2 where "s2 = \<lparr>sd_mn = M0, sd_sn = S0, sd_nn = sd_nn s\<rparr>"
  have sz: "stdDev_size s = sd_nn s" using nf by (rule stdDev_size_not_finalized)
  have ins: "stdDev_insert rnd v s = Inr s1"
    using insert_ok(1)[OF nf nfull, of rnd v] by (simp add: s1_def M1_def S1_def m_def N_def)
  have rem: "stdDev_remove rnd v s1 = Inr s2"
    using remove_after_insert[OF insert_ok(2,3)[OF nf nfull], of rnd v M1 S1]
    by (simp add: s1_def s2_def M0_def S0_def N_def)
  have nn2: "sd_nn s2 = sd_nn s" by (simp add: s2_def)
  have size2: "stdDev_size s2 = stdDev_size s" by (simp add: stdDev_size_def nn2)
  have zero: "stdDev_size s = 0 \<longrightarrow>
              stdDev_mean s2 = 0 \<and> stdDev_variance rnd s2 = stdDev_variance rnd s"
  proof
    assume "stdDev_size s = 0"
    then have z: "sd_nn s = 0" using sz by simp
    have "stdDev_mean s2 = 0" by (simp add: stdDev_mean_def s2_def M0_def z)
    moreover have "stdDev_variance rnd s2 = stdDev_variance rnd s"
      by (simp add: stdDev_variance_def nn2 z)
    ultimately show "stdDev_mean s2 = 0 \<and> stdDev_variance rnd s2 = stdDev_variance rnd s" by simp
  qed
  have exact: "stdDev_size s \<noteq> 0 \<and> (\<forall>x \<in> set (insert_remove_values v s). rnd x = x) \<longrightarrow>
              stdDev_mean s2 = stdDev_mean s \<and> stdDev_variance rnd s2 = stdDev_variance rnd s"
  proof
    assume a: "stdDev_size s \<noteq> 0 \<and> (\<forall>x \<in> set (insert_remove_values v s). rnd x = x)"
    then have nz: "sd_nn s \<noteq> 0" using sz by simp
    then have "unat (sd_nn s) \<noteq> 0" by (simp add: unat_eq_0)
    then have N0: "N \<noteq> 0" unfolding N_def by (simp only: of_nat_eq_0_iff not_False_eq_True)
    define d where "d = v - m"
    define q where "q = d / (N + 1)"
    define m1 where "m1 = m + q"
    define t where "t = v - m1"
    define p where "p = d * t"
    define e1 where "e1 = sd_sn s + p"
    define u1 where "u1 = (N + 1) * m1"
    define u2 where "u2 = u1 - v"
    define m0 where "m0 = u2 / N"
    define u3 where "u3 = v - m0"
    define u5 where "u5 = u3 * t"
    define e0 where "e0 = e1 - u5"
    have vals: "insert_remove_values v s = [d, q, m1, t, p, e1, u1, u2, m0, u3, u5, e0]"
      unfolding insert_remove_values_def Let_def
        d_def q_def m1_def t_def p_def e1_def u1_def u2_def m0_def u3_def u5_def e0_def
        m_def N_def
      by (rule refl)
    have r: "rnd d = d" "rnd q = q" "rnd m1 = m1" "rnd t = t" "rnd p = p" "rnd e1 = e1"
      "rnd u1 = u1" "rnd u2 = u2" "rnd m0 = m0" "rnd u3 = u3" "rnd u5 = u5" "rnd e0 = e0"
      using a unfolding vals by simp_all
    have M1: "M1 = m1"
      unfolding M1_def d_def[symmetric] r(1) q_def[symmetric] r(2) m1_def[symmetric] r(3)
      by (rule refl)
    have S1: "S1 = e1"
      unfolding S1_def M1 d_def[symmetric] r(1) t_def[symmetric] r(4) p_def[symmetric] r(5)
        e1_def[symmetric] r(6)
      by (rule refl)
    have M0: "M0 = m0"
      unfolding M0_def M1 u1_def[symmetric] r(7) u2_def[symmetric] r(8) m0_def[symmetric] r(9)
      using nz by simp
    have S0: "S0 = e0"
      unfolding S0_def S1 M0 M1 u3_def[symmetric] r(10) t_def[symmetric] r(4) u5_def[symmetric]
        r(11) e0_def[symmetric] r(12)
      by (rule refl)
    have "(N + 1) * m1 = N * m + v"
    proof -
      have "0 \<le> N" unfolding N_def by (rule of_nat_0_le_iff)
      then have "N + 1 \<noteq> 0" by linarith
      then show ?thesis by (simp add: m1_def q_def d_def field_simps)
    qed
    then have m0m: "m0 = m" using N0 by (simp add: m0_def u2_def u1_def)
    have e0s: "e0 = sd_sn s" by (simp add: e0_def u5_def u3_def m0m e1_def p_def d_def)
    have "stdDev_mean s2 = stdDev_mean s"
      by (simp add: stdDev_mean_def s2_def M0 m0m m_def)
    moreover have "stdDev_variance rnd s2 = stdDev_variance rnd s"
      by (simp add: stdDev_variance_def s2_def S0 e0s)
    ultimately show "stdDev_mean s2 = stdDev_mean s \<and>
        stdDev_variance rnd s2 = stdDev_variance rnd s" by simp
  qed
  show ?thesis using ins rem size2 zero exact by blast
qed

theorem insert_remove_restores_witness:
  "(\<exists>s1 s2. stdDev_insert round64 6 (stdDev_new 2 2 3) = Inr s1 \<and>
            stdDev_remove round64 6 s1 = Inr s2 \<and> stdDev_size s2 = 3 \<and>
            stdDev_mean s2 = 2 \<and> stdDev_variance round64 s2 = 1) \<and>
   (\<exists>s1 s2. stdDev_insert round64 1 (stdDev_new 5 0 0) = Inr s1 \<and>
            stdDev_remove round64 1 s1 = Inr s2 \<and> stdDev_size s2 = 0 \<and>
            stdDev_mean s2 = 0 \<and> stdDev_variance round64 s2 = 0)"
proof -
  have a: "\<not> stdDev_finalized (stdDev_new 2 2 3)" "\<not> stdDev_finalized (stdDev_new 5 0 0)"
    by (simp_all add: stdDev_finalized_def stdDev_new_def)
  have b: "stdDev_size (stdDev_new 2 2 3) \<noteq> 0x7fffffff" "stdDev_size (stdDev_new 5 0 0) \<noteq> 0x7fffffff"
    by (simp_all add: stdDev_size_def stdDev_new_def)
  have sz: "stdDev_size (stdDev_new 2 2 3) = 3" "stdDev_size (stdDev_new 5 0 0) = 0"
    by (simp_all add: stdDev_size_def stdDev_new_def)
  have ex: "\<forall>x \<in> set (insert_remove_values 6 (stdDev_new 2 2 3)). round64 x = x"
    by (simp add: insert_remove_values_def stdDev_new_def Let_def round64_small_ints round64_12_14)
  have mv: "stdDev_mean (stdDev_new 2 2 3) = 2" "stdDev_variance round64 (stdDev_new 2 2 3) = 1"
    "stdDev_variance round64 (stdDev_new 5 0 0) = 0"
    by (simp_all add: stdDev_mean_def stdDev_variance_def stdDev_new_def round64_small_ints)
  have "\<exists>s1 s2. stdDev_insert round64 6 (stdDev_new 2 2 3) = Inr s1 \<and>
            stdDev_remove round64 6 s1 = Inr s2 \<and> stdDev_size s2 = 3 \<and>
            stdDev_mean s2 = 2 \<and> stdDev_variance round64 s2 = 1"
    using insert_remove_restores[OF a(1) b(1), of round64 6] ex by (simp add: sz mv)
  moreover have "\<exists>s1 s2. stdDev_insert round64 1 (stdDev_new 5 0 0) = Inr s1 \<and>
            stdDev_remove round64 1 s1 = Inr s2 \<and> stdDev_size s2 = 0 \<and>
            stdDev_mean s2 = 0 \<and> stdDev_variance round64 s2 = 0"
    using insert_remove_restores[OF a(2) b(2), of round64 1] by (simp add: sz mv)
  ultimately show ?thesis by blast
qed

text \<open>
  The claim as stated fails in three ways, all with the rounding of binary64.

  \<^item> An empty estimator constructed by \<^verbatim>\<open>stdDev(5.0, 0.0, 0)\<close>: after \<open>insert(1)\<close> and
    \<open>remove(1)\<close> the mean is 0, not 5. No operation rounds here.
  \<^item> The state with mean \<open>0.1\<close>, sum 0 and count 1 (the \<^verbatim>\<open>double\<close> nearest to \<open>0.1\<close> is
    \<open>3602879701896397 / 2^55\<close>, the one nearest to \<open>0.2\<close> is twice that): after
    \<open>insert(0.2)\<close> and \<open>remove(0.2)\<close> the mean is \<open>1801439850948199 / 2^54\<close>, which
    prints as \<open>0.10000000000000003\<close>. The sum \<open>0.1 + 0.05\<close> falls halfway between two
    numbers of the format and is rounded to the even one.
  \<^item> The state that \<open>insert(1)\<close>, \<open>insert(2)\<close>, \<open>insert(4)\<close> build from an empty estimator
    (mean \<open>5254199565265579 / 2^51\<close>, sum \<open>2627099782632789 / 2^49\<close>, count 3): after
    \<open>insert(7)\<close> and \<open>remove(7)\<close> the mean is as before, but the sum is
    \<open>1313549891316395 / 2^48\<close>, and \<open>variance()\<close> goes from \<open>2.333333333333333\<close> to
    \<open>2.333333333333334\<close>.
\<close>

lemma round64_tenth:
  "round64 (3602879701896397 / 36028797018963968) = 3602879701896397 / 36028797018963968"
  "round64 (3602879701896397 / 72057594037927936) = 3602879701896397 / 72057594037927936"
  "round64 (10808639105689191 / 72057594037927936) = 1351079888211149 / 9007199254740992"
  "round64 (900719925474099 / 18014398509481984) = 900719925474099 / 18014398509481984"
  "round64 (3245185536584266727399604921303 / 649037107316853453566312041152512) = 2882303761517117 / 576460752303423488"
  "round64 (2882303761517117 / 576460752303423488) = 2882303761517117 / 576460752303423488"
  "round64 (1351079888211149 / 4503599627370496) = 1351079888211149 / 4503599627370496"
  "round64 (1801439850948199 / 18014398509481984) = 1801439850948199 / 18014398509481984"
  "round64 (900719925474099 / 9007199254740992) = 900719925474099 / 9007199254740992"
  "round64 (811296384146066456669919861801 / 162259276829213363391578010288128) = 720575940379279 / 144115188075855872"
  "round64 (1 / 576460752303423488) = 1 / 576460752303423488"
proof -
  show "round64 (3602879701896397 / 36028797018963968) = 3602879701896397 / 36028797018963968"
    using round64_scaled[of "3602879701896397 / 36028797018963968" 56] by (simp add: round_half_even_def)
  show "round64 (3602879701896397 / 72057594037927936) = 3602879701896397 / 72057594037927936"
    using round64_scaled[of "3602879701896397 / 72057594037927936" 57] by (simp add: round_half_even_def)
  show "round64 (10808639105689191 / 72057594037927936) = 1351079888211149 / 9007199254740992"
    using round64_scaled[of "10808639105689191 / 72057594037927936" 55] by (simp add: round_half_even_def)
  show "round64 (900719925474099 / 18014398509481984) = 900719925474099 / 18014398509481984"
    using round64_scaled[of "900719925474099 / 18014398509481984" 57] by (simp add: round_half_even_def)
  show "round64 (3245185536584266727399604921303 / 649037107316853453566312041152512) = 2882303761517117 / 576460752303423488"
    using round64_scaled[of "3245185536584266727399604921303 / 649037107316853453566312041152512" 60] by (simp add: round_half_even_def)
  show "round64 (2882303761517117 / 576460752303423488) = 2882303761517117 / 576460752303423488"
    using round64_scaled[of "2882303761517117 / 576460752303423488" 60] by (simp add: round_half_even_def)
  show "round64 (1351079888211149 / 4503599627370496) = 1351079888211149 / 4503599627370496"
    using round64_scaled[of "1351079888211149 / 4503599627370496" 54] by (simp add: round_half_even_def)
  show "round64 (1801439850948199 / 18014398509481984) = 1801439850948199 / 18014398509481984"
    using round64_scaled[of "1801439850948199 / 18014398509481984" 56] by (simp add: round_half_even_def)
  show "round64 (900719925474099 / 9007199254740992) = 900719925474099 / 9007199254740992"
    using round64_scaled[of "900719925474099 / 9007199254740992" 56] by (simp add: round_half_even_def)
  show "round64 (811296384146066456669919861801 / 162259276829213363391578010288128) = 720575940379279 / 144115188075855872"
    using round64_scaled[of "811296384146066456669919861801 / 162259276829213363391578010288128" 60] by (simp add: round_half_even_def)
  show "round64 (1 / 576460752303423488) = 1 / 576460752303423488"
    using round64_scaled[of "1 / 576460752303423488" 111] by (simp add: round_half_even_def)
qed

lemma round64_thirds:
  "round64 (2627099782632789 / 1125899906842624) = 2627099782632789 / 1125899906842624"
  "round64 (10508399130531157 / 2251799813685248) = 2627099782632789 / 562949953421312"
  "round64 (2627099782632789 / 2251799813685248) = 2627099782632789 / 2251799813685248"
  "round64 (7 / 2) = 7 / 2"
  "round64 (18389698478429523 / 1125899906842624) = 4597424619607381 / 281474976710656"
  "round64 (11821949021847551 / 562949953421312) = 21"
  "round64 7 = 7"
  "round64 (7 / 3) = 5254199565265579 / 2251799813685248"
  "round64 (1313549891316395 / 281474976710656) = 1313549891316395 / 281474976710656"
  "round64 (1313549891316395 / 562949953421312) = 1313549891316395 / 562949953421312"
proof -
  show "round64 (2627099782632789 / 1125899906842624) = 2627099782632789 / 1125899906842624"
    using round64_scaled[of "2627099782632789 / 1125899906842624" 51] by (simp add: round_half_even_def)
  show "round64 (10508399130531157 / 2251799813685248) = 2627099782632789 / 562949953421312"
    using round64_scaled[of "10508399130531157 / 2251799813685248" 50] by (simp add: round_half_even_def)
  show "round64 (2627099782632789 / 2251799813685248) = 2627099782632789 / 2251799813685248"
    using round64_scaled[of "2627099782632789 / 2251799813685248" 52] by (simp add: round_half_even_def)
  show "round64 (7 / 2) = 7 / 2"
    using round64_scaled[of "7 / 2" 51] by (simp add: round_half_even_def)
  show "round64 (18389698478429523 / 1125899906842624) = 4597424619607381 / 281474976710656"
    using round64_scaled[of "18389698478429523 / 1125899906842624" 48] by (simp add: round_half_even_def)
  show "round64 (11821949021847551 / 562949953421312) = 21"
    using round64_scaled[of "11821949021847551 / 562949953421312" 48] by (simp add: round_half_even_def)
  show "round64 7 = 7"
    using round64_scaled[of 7 50] by (simp add: round_half_even_def)
  show "round64 (7 / 3) = 5254199565265579 / 2251799813685248"
    using round64_scaled[of "7 / 3" 51] by (simp add: round_half_even_def)
  show "round64 (1313549891316395 / 281474976710656) = 1313549891316395 / 281474976710656"
    using round64_scaled[of "1313549891316395 / 281474976710656" 50] by (simp add: round_half_even_def)
  show "round64 (1313549891316395 / 562949953421312) = 1313549891316395 / 562949953421312"
    using round64_scaled[of "1313549891316395 / 562949953421312" 51] by (simp add: round_half_even_def)
qed

lemma round64_build_124:
  "round64 (1 / 2) = 1 / 2"
  "round64 (3 / 2) = 3 / 2"
  "round64 (5 / 2) = 5 / 2"
  "round64 (5 / 6) = 7505999378950827 / 9007199254740992"
  "round64 (21016798261062315 / 9007199254740992) = 5254199565265579 / 2251799813685248"
  "round64 (3752999689475413 / 2251799813685248) = 3752999689475413 / 2251799813685248"
  "round64 (18764998447377065 / 4503599627370496) = 2345624805922133 / 562949953421312"
  "round64 (2627099782632789 / 562949953421312) = 2627099782632789 / 562949953421312"
proof -
  show "round64 (1 / 2) = 1 / 2"
    using round64_scaled[of "1 / 2" 53] by (simp add: round_half_even_def)
  show "round64 (3 / 2) = 3 / 2"
    using round64_scaled[of "3 / 2" 52] by (simp add: round_half_even_def)
  show "round64 (5 / 2) = 5 / 2"
    using round64_scaled[of "5 / 2" 51] by (simp add: round_half_even_def)
  show "round64 (5 / 6) = 7505999378950827 / 9007199254740992"
    using round64_scaled[of "5 / 6" 53] by (simp add: round_half_even_def)
  show "round64 (21016798261062315 / 9007199254740992) = 5254199565265579 / 2251799813685248"
    using round64_scaled[of "21016798261062315 / 9007199254740992" 51] by (simp add: round_half_even_def)
  show "round64 (3752999689475413 / 2251799813685248) = 3752999689475413 / 2251799813685248"
    using round64_scaled[of "3752999689475413 / 2251799813685248" 52] by (simp add: round_half_even_def)
  show "round64 (18764998447377065 / 4503599627370496) = 2345624805922133 / 562949953421312"
    using round64_scaled[of "18764998447377065 / 4503599627370496" 50] by (simp add: round_half_even_def)
  show "round64 (2627099782632789 / 562949953421312) = 2627099782632789 / 562949953421312"
    using round64_scaled[of "2627099782632789 / 562949953421312" 50] by (simp add: round_half_even_def)
qed

lemma insert_1_2_4:
  "stdDev_insert round64 1 (stdDev_new 0 0 0) = Inr (stdDev_new 1 0 1)"
  "stdDev_insert round64 2 (stdDev_new 1 0 1) = Inr (stdDev_new (3 / 2) (1 / 2) 2)"
  "stdDev_insert round64 4 (stdDev_new (3 / 2) (1 / 2) 2) =
     Inr (stdDev_new (5254199565265579 / 2251799813685248) (2627099782632789 / 562949953421312) 3)"
  by (simp_all add: stdDev_insert_def stdDev_new_def Let_def round64_0 round64_small_ints
      round64_build_124)

theorem insert_remove_counterexample:
  "(\<not> stdDev_finalized (stdDev_new 5 0 0) \<and>
    stdDev_insert round64 1 (stdDev_new 5 0 0) = Inr (stdDev_new 1 0 1) \<and>
    stdDev_remove round64 1 (stdDev_new 1 0 1) = Inr (stdDev_new 0 0 0) \<and>
    stdDev_mean (stdDev_new 0 0 0) \<noteq> stdDev_mean (stdDev_new 5 0 0)) \<and>
   (\<not> stdDev_finalized (stdDev_new (3602879701896397 / 36028797018963968) 0 1) \<and>
    stdDev_insert round64 (3602879701896397 / 18014398509481984)
        (stdDev_new (3602879701896397 / 36028797018963968) 0 1) =
      Inr (stdDev_new (1351079888211149 / 9007199254740992)
             (2882303761517117 / 576460752303423488) 2) \<and>
    stdDev_remove round64 (3602879701896397 / 18014398509481984)
        (stdDev_new (1351079888211149 / 9007199254740992)
             (2882303761517117 / 576460752303423488) 2) =
      Inr (stdDev_new (1801439850948199 / 18014398509481984) (1 / 576460752303423488) 1) \<and>
    stdDev_mean (stdDev_new (1801439850948199 / 18014398509481984) (1 / 576460752303423488) 1) \<noteq>
      stdDev_mean (stdDev_new (3602879701896397 / 36028797018963968) 0 1)) \<and>
   (\<not> stdDev_finalized
        (stdDev_new (5254199565265579 / 2251799813685248) (2627099782632789 / 562949953421312) 3) \<and>
    stdDev_insert round64 7
        (stdDev_new (5254199565265579 / 2251799813685248) (2627099782632789 / 562949953421312) 3) =
      Inr (stdDev_new (7 / 2) 21 4) \<and>
    stdDev_remove round64 7 (stdDev_new (7 / 2) 21 4) =
      Inr (stdDev_new (5254199565265579 / 2251799813685248) (1313549891316395 / 281474976710656) 3) \<and>
    stdDev_variance round64
        (stdDev_new (5254199565265579 / 2251799813685248) (1313549891316395 / 281474976710656) 3) \<noteq>
      stdDev_variance round64
        (stdDev_new (5254199565265579 / 2251799813685248) (2627099782632789 / 562949953421312) 3))"
proof -
  have a: "\<not> stdDev_finalized (stdDev_new 5 0 0) \<and>
    stdDev_insert round64 1 (stdDev_new 5 0 0) = Inr (stdDev_new 1 0 1) \<and>
    stdDev_remove round64 1 (stdDev_new 1 0 1) = Inr (stdDev_new 0 0 0) \<and>
    stdDev_mean (stdDev_new 0 0 0) \<noteq> stdDev_mean (stdDev_new 5 0 0)"
    by (simp add: stdDev_finalized_def stdDev_new_def stdDev_insert_def stdDev_remove_def
        stdDev_mean_def Let_def round64_0 round64_small_ints)
  have b: "\<not> stdDev_finalized (stdDev_new (3602879701896397 / 36028797018963968) 0 1) \<and>
    stdDev_insert round64 (3602879701896397 / 18014398509481984)
        (stdDev_new (3602879701896397 / 36028797018963968) 0 1) =
      Inr (stdDev_new (1351079888211149 / 9007199254740992)
             (2882303761517117 / 576460752303423488) 2) \<and>
    stdDev_remove round64 (3602879701896397 / 18014398509481984)
        (stdDev_new (1351079888211149 / 9007199254740992)
             (2882303761517117 / 576460752303423488) 2) =
      Inr (stdDev_new (1801439850948199 / 18014398509481984) (1 / 576460752303423488) 1) \<and>
    stdDev_mean (stdDev_new (1801439850948199 / 18014398509481984) (1 / 576460752303423488) 1) \<noteq>
      stdDev_mean (stdDev_new (3602879701896397 / 36028797018963968) 0 1)"
    by (simp add: stdDev_finalized_def stdDev_new_def stdDev_insert_def stdDev_remove_def
        stdDev_mean_def Let_def round64_0 round64_tenth)
  have c: "\<not> stdDev_finalized
        (stdDev_new (5254199565265579 / 2251799813685248) (2627099782632789 / 562949953421312) 3) \<and>
    stdDev_insert round64 7
        (stdDev_new (5254199565265579 / 2251799813685248) (2627099782632789 / 562949953421312) 3) =
      Inr (stdDev_new (7 / 2) 21 4) \<and>
    stdDev_remove round64 7 (stdDev_new (7 / 2) 21 4) =
      Inr (stdDev_new (5254199565265579 / 2251799813685248) (1313549891316395 / 281474976710656) 3) \<and>
    stdDev_variance round64
        (stdDev_new (5254199565265579 / 2251799813685248) (1313549891316395 / 281474976710656) 3) \<noteq>
      stdDev_variance round64
        (stdDev_new (5254199565265579 / 2251799813685248) (2627099782632789 / 562949953421312) 3)"
    by (simp add: stdDev_finalized_def stdDev_new_def stdDev_insert_def stdDev_remove_def
        stdDev_variance_def Let_def round64_0 round64_small_ints round64_12_14 round64_thirds)
  show ?thesis using a b c by blast
qed

section \<open>Properties of computeMode\<close>

text \<open>
  Claim C1. The claim says that the first longest run of the sorted sequence wins, so
  that \<open>[0,0,0,5,5,5]\<close> gives 0. The source gives 5: a run that starts at a change of
  value is counted from 2 (\<^verbatim>\<open>modeTmpCnt = 1\<close> and then \<^verbatim>\<open>modeTmpCnt++\<close>), a leading run
  of zeroes matches the initial \<^verbatim>\<open>modeTmpVal = 0\<close> and is counted from 1, so the three
  fives count 4 against the three zeroes' 3.
\<close>

theorem computeMode_leading_zero_run:
  "computeMode [0, 0, 0, 5, 5, 5 :: int] False = 5"
  by (simp add: computeMode_def)

text \<open>
  With a leading run of another value the same tie goes to the first run, and a leading
  run of zeroes wins as soon as it is strictly longer.
\<close>

lemma computeMode_tie_without_zero:
  "computeMode [1, 1, 1, 5, 5, 5 :: int] False = 1"
  by (simp add: computeMode_def)

lemma computeMode_longer_zero_run:
  "computeMode [0, 0, 0, 0, 5, 5, 5 :: int] False = 0"
  by (simp add: computeMode_def)

section \<open>Properties of the histogram engine\<close>

subsection \<open>The index range\<close>

lemma unat_lt_2p64: "unat (w::64 word) < 2^64"
  using unsigned_less[of w, where 'a=nat] by simp

lemma unat_of_nat64: "n < 2^64 \<Longrightarrow> unat (of_nat n :: 64 word) = n"
  by (simp add: unat_of_nat)

lemma set_indices: "set (indices m) = {i. i \<le> m}"
proof (intro set_eqI iffI)
  fix i assume "i \<in> set (indices m)"
  then obtain n where n: "n \<le> unat m" "i = of_nat n"
    by (auto simp: indices_def less_Suc_eq_le simp del: upt_Suc)
  have "n < 2^64" using n(1) unat_lt_2p64[of m] by simp
  then have "unat i = n" using n(2) by (simp add: unat_of_nat64)
  then show "i \<in> {i. i \<le> m}" using n(1) by (simp add: word_le_nat_alt)
next
  fix i assume "i \<in> {i. i \<le> m}"
  then have "unat i \<le> unat m" by (simp add: word_le_nat_alt)
  then have "unat i \<in> set [0..<Suc (unat m)]" by (simp del: upt_Suc)
  then have "of_nat (unat i) \<in> set (indices m)" unfolding indices_def set_map by (rule imageI)
  then show "i \<in> set (indices m)" by simp
qed

lemma indices_not_Nil: "indices m \<noteq> []"
  by (simp add: indices_def)

lemma sorted_indices: "sorted_wrt (<) (indices m)"
proof -
  have "sorted_wrt (\<lambda>x y. (of_nat x :: 64 word) < of_nat y) [0..<Suc (unat m)]"
  proof (rule sorted_wrt_mono_rel[of _ "(<)"])
    fix x y assume "x \<in> set [0..<Suc (unat m)]" "y \<in> set [0..<Suc (unat m)]" "x < y"
    then have "x < 2^64" "y < 2^64" using unat_lt_2p64[of m] by (auto simp del: upt_Suc)
    then show "(of_nat x :: 64 word) < of_nat y" using \<open>x < y\<close>
      by (simp add: word_less_nat_alt unat_of_nat64)
  next
    show "sorted_wrt (<) [0..<Suc (unat m)]" by (rule sorted_wrt_upt)
  qed
  then show ?thesis by (simp add: indices_def sorted_wrt_map del: upt_Suc)
qed

lemma numObjs_loop_Cons: "numObjs_loop h (ii # is) acc = numObjs_loop h is (acc + h ii)"
  by (simp add: numObjs_loop_def)

lemma median_loop_in_set:
  "half \<le> numObjs_loop h is acc \<Longrightarrow> is \<noteq> [] \<Longrightarrow> median_loop h half is acc \<in> set is"
proof (induction "is" arbitrary: acc)
  case Nil
  then show ?case by simp
next
  case (Cons ii "is")
  show ?case
  proof (cases "half \<le> acc + h ii")
    case True
    then show ?thesis by simp
  next
    case False
    have ne: "is \<noteq> []"
    proof
      assume "is = []"
      then have "numObjs_loop h (ii # is) acc = acc + h ii" by (simp add: numObjs_loop_def)
      with Cons.prems(1) False show False by simp
    qed
    have "half \<le> numObjs_loop h is (acc + h ii)"
      using Cons.prems(1) by (simp add: numObjs_loop_Cons)
    then have "median_loop h half is (acc + h ii) \<in> set is" using ne by (rule Cons.IH)
    with False show ?thesis by simp
  qed
qed

lemma word_half_le: "(n::64 word) div 2 \<le> n"
  by (simp add: word_le_nat_alt unat_div)

lemma median_le_max:
  "median_loop h (numObjs_loop h (indices m) 0 div 2) (indices m) 0 \<le> m"
proof -
  have "median_loop h (numObjs_loop h (indices m) 0 div 2) (indices m) 0 \<in> set (indices m)"
    by (rule median_loop_in_set[OF word_half_le indices_not_Nil])
  then show ?thesis by (simp add: set_indices)
qed

lemma deviation_le:
  fixes ii med m :: "64 word"
  assumes "ii \<le> m" "med \<le> m"
  shows "(if ii < med then med - ii else ii - med) \<le> m"
proof (cases "ii < med")
  case True
  then have "med - ii \<le> med" by (simp add: word_le_nat_alt word_less_nat_alt unat_sub)
  with assms(2) True show ?thesis by simp
next
  case False
  then have "ii - med \<le> ii" by (simp add: word_le_nat_alt word_less_nat_alt unat_sub)
  with assms(1) False show ?thesis by simp
qed

lemma le_max_less_succ:
  fixes x m :: "64 word"
  assumes "x \<le> m" "m \<noteq> - 1"
  shows "\<not> m + 1 \<le> x"
proof -
  have "m + 1 \<noteq> 0" using assms(2) by (simp add: eq_neg_iff_add_eq_0)
  then have "unat (m + 1) = Suc (unat m)" by (simp add: unatSuc add.commute)
  then show ?thesis using assms(1) by (simp add: word_le_nat_alt)
qed

lemma add_max_ne_minus1:
  assumes "add d c s = Some s'" "hs_histogramMax s \<noteq> - 1"
  shows "hs_histogramMax s' \<noteq> - 1"
proof -
  obtain arr al where w: "while_option (\<lambda>(array, alloc). alloc \<le> d)
             (\<lambda>(array, alloc). resizeArray array (hs_histogramMax s + 1) alloc (alloc * 2))
             (hs_histogram s, hs_histogramAlloc s) = Some (arr, al)"
    using assms(1) by (auto simp: add_def split: option.splits)
  have "\<not> al \<le> d" using while_option_stop[OF w] by simp
  then have "d \<noteq> - 1" by auto
  moreover have "hs_histogramMax s' = (if hs_histogramMax s < d then d else hs_histogramMax s)"
    using assms(1) w by (auto simp: add_def)
  ultimately show ?thesis using assms(2) by simp
qed

lemma add_all_max_ne_minus1:
  "add_all ps s = Some s' \<Longrightarrow> hs_histogramMax s \<noteq> - 1 \<Longrightarrow> hs_histogramMax s' \<noteq> - 1"
proof (induction ps arbitrary: s)
  case Nil
  then show ?case by simp
next
  case (Cons p ps)
  obtain d c where p: "p = (d, c)" by (cases p)
  from Cons.prems(1) obtain s1 where s1: "add d c s = Some s1" "add_all ps s1 = Some s'"
    by (auto simp: p split: option.splits)
  show ?case using Cons.IH[OF s1(2)] add_max_ne_minus1[OF s1(1) Cons.prems(2)] by simp
qed


lemma maddata_loop_ok:
  assumes "med \<le> m" "m \<noteq> - 1" "\<forall>ii \<in> set is. ii \<le> m"
  shows "\<exists>md'. maddata_loop h med (m + 1) is md = Inr md'"
  using assms(3)
proof (induction "is" arbitrary: md)
  case Nil
  then show ?case by simp
next
  case (Cons ii "is")
  have "ii \<le> m" using Cons.prems by simp
  then have "\<not> m + 1 \<le> (if ii < med then med - ii else ii - med)"
    using deviation_le[OF _ assms(1)] le_max_less_succ[OF _ assms(2)] by blast
  moreover have "\<forall>ii \<in> set is. ii \<le> m" using Cons.prems by simp
  ultimately show ?case using Cons.IH by (simp add: Let_def)
qed

lemma finalizeData_ok:
  assumes "hs_histogramMax s \<noteq> - 1"
  shows "\<exists>s'. finalizeData s = Inr s'"
proof (cases "hs_finalized s")
  case True
  then show ?thesis by (simp add: finalizeData_def)
next
  case False
  let ?h = "hs_histogram s" and ?m = "hs_histogramMax s"
  let ?med = "median_loop ?h (numObjs_loop ?h (indices ?m) 0 div 2) (indices ?m) 0"
  have "?med \<le> ?m" by (rule median_le_max)
  moreover have "\<forall>ii \<in> set (indices ?m). ii \<le> ?m" by (simp add: set_indices)
  ultimately obtain md' where "maddata_loop ?h ?med (?m + 1) (indices ?m) (\<lambda>_. 0) = Inr md'"
    using maddata_loop_ok[OF _ assms] by blast
  then show ?thesis using False by (simp add: finalizeData_def clearStatistics_def Let_def)
qed

subsection \<open>The mode loop and the median loop\<close>

lemma mode_loop_snoc:
  "mode_loop h (xs @ [x]) m0 = (if h x > h (mode_loop h xs m0) then x else mode_loop h xs m0)"
  by (simp add: mode_loop_def)

lemma mode_loop_first_max:
  assumes "sorted_wrt (<) (m0 # is)"
  shows "mode_loop h is m0 \<in> set (m0 # is) \<and>
         (\<forall>j \<in> set (m0 # is). h j \<le> h (mode_loop h is m0)) \<and>
         (\<forall>j \<in> set (m0 # is). j < mode_loop h is m0 \<longrightarrow> h j < h (mode_loop h is m0))"
  using assms
proof (induction "is" rule: rev_induct)
  case Nil
  then show ?case by (simp add: mode_loop_def)
next
  case (snoc x xs)
  let ?m = "mode_loop h xs m0"
  have srt: "sorted_wrt (<) (m0 # xs)" and gt: "\<forall>j \<in> set (m0 # xs). j < x"
    using snoc.prems by (auto simp: sorted_wrt_append)
  note IH = snoc.IH[OF srt]
  show ?case
  proof (cases "h x > h ?m")
    case True
    then have eq: "mode_loop h (xs @ [x]) m0 = x" by (simp add: mode_loop_snoc)
    have "\<forall>j \<in> set (m0 # xs). h j < h x" using IH True by (meson le_less_trans)
    then show ?thesis unfolding eq by auto
  next
    case False
    then have eq: "mode_loop h (xs @ [x]) m0 = ?m" by (simp add: mode_loop_snoc)
    have "?m < x" using IH gt by blast
    then have "\<not> x < ?m" by simp
    then show ?thesis unfolding eq using IH False by auto
  qed
qed

lemma indices_Cons: "indices m = 0 # map of_nat [1..<Suc (unat m)]"
  by (simp add: indices_def upt_conv_Cons del: upt_Suc)

lemma mode_loop_indices:
  "mode_loop h (indices m) 0 \<le> m \<and>
   (\<forall>j \<le> m. h j \<le> h (mode_loop h (indices m) 0)) \<and>
   (\<forall>j < mode_loop h (indices m) 0. h j < h (mode_loop h (indices m) 0))"
proof -
  let ?rest = "map of_nat [1..<Suc (unat m)] :: 64 word list"
  have eq: "mode_loop h (indices m) 0 = mode_loop h ?rest 0"
    by (simp add: indices_Cons mode_loop_def del: upt_Suc)
  have srt: "sorted_wrt (<) (0 # ?rest)" using sorted_indices[of m] by (simp only: indices_Cons)
  have st: "set (0 # ?rest) = {i. i \<le> m}" using set_indices[of m] by (simp only: indices_Cons)
  note r = mode_loop_first_max[OF srt, of h, unfolded st, folded eq]
  let ?mo = "mode_loop h (indices m) 0"
  have a: "?mo \<le> m" using r by simp
  have b: "\<forall>j \<le> m. h j \<le> h ?mo" using r by simp
  have c: "\<forall>j < ?mo. h j < h ?mo"
  proof (intro allI impI)
    fix j assume "j < ?mo"
    then have "j \<le> m" using a by simp
    then show "h j < h ?mo" using r \<open>j < ?mo\<close> by simp
  qed
  show ?thesis using a b c by blast
qed

lemma median_loop_first:
  "half \<le> numObjs_loop h is acc \<Longrightarrow> is \<noteq> [] \<Longrightarrow>
   \<exists>k < length is. median_loop h half is acc = is ! k \<and>
       half \<le> numObjs_loop h (take (Suc k) is) acc \<and>
       (\<forall>k' < k. \<not> half \<le> numObjs_loop h (take (Suc k') is) acc)"
proof (induction "is" arbitrary: acc)
  case Nil
  then show ?case by simp
next
  case (Cons ii "is")
  show ?case
  proof (cases "half \<le> acc + h ii")
    case True
    then have "median_loop h half (ii # is) acc = (ii # is) ! 0 \<and>
       half \<le> numObjs_loop h (take (Suc 0) (ii # is)) acc \<and>
       (\<forall>k' < 0. \<not> half \<le> numObjs_loop h (take (Suc k') (ii # is)) acc)"
      by (simp add: numObjs_loop_def)
    then show ?thesis by blast
  next
    case False
    have ne: "is \<noteq> []"
    proof
      assume "is = []"
      then have "numObjs_loop h (ii # is) acc = acc + h ii" by (simp add: numObjs_loop_def)
      with Cons.prems(1) False show False by simp
    qed
    have "half \<le> numObjs_loop h is (acc + h ii)"
      using Cons.prems(1) by (simp add: numObjs_loop_Cons)
    from Cons.IH[OF this ne] obtain k where k: "k < length is"
      "median_loop h half is (acc + h ii) = is ! k"
      "half \<le> numObjs_loop h (take (Suc k) is) (acc + h ii)"
      "\<forall>k' < k. \<not> half \<le> numObjs_loop h (take (Suc k') is) (acc + h ii)"
      by blast
    have 1: "Suc k < length (ii # is)" using k(1) by simp
    have 2: "median_loop h half (ii # is) acc = (ii # is) ! Suc k" using False k(2) by simp
    have 3: "half \<le> numObjs_loop h (take (Suc (Suc k)) (ii # is)) acc"
      using k(3) by (simp add: numObjs_loop_Cons)
    have 4: "\<forall>k' < Suc k. \<not> half \<le> numObjs_loop h (take (Suc k') (ii # is)) acc"
    proof (intro allI impI)
      fix k' assume "k' < Suc k"
      show "\<not> half \<le> numObjs_loop h (take (Suc k') (ii # is)) acc"
      proof (cases k')
        case 0
        then show ?thesis using False by (simp add: numObjs_loop_def)
      next
        case (Suc k'')
        then have "k'' < k" using \<open>k' < Suc k\<close> by simp
        then show ?thesis using k(4) Suc by (simp add: numObjs_loop_Cons)
      qed
    qed
    show ?thesis using 1 2 3 4 by blast
  qed
qed

lemma indices_nth: "k \<le> unat m \<Longrightarrow> indices m ! k = of_nat k"
  by (simp add: indices_def del: upt_Suc)

lemma indices_take: "k \<le> unat m \<Longrightarrow> take (Suc k) (indices m) = indices (of_nat k)"
proof -
  assume k: "k \<le> unat m"
  then have "k < 2^64" using unat_lt_2p64[of m] by simp
  then have u: "unat (of_nat k :: 64 word) = k" by (rule unat_of_nat64)
  have "take (Suc k) [0..<Suc (unat m)] = [0..<Suc k]" using k by (simp del: upt_Suc)
  then show ?thesis by (simp add: indices_def u take_map del: upt_Suc)
qed

lemma length_indices: "length (indices m) = Suc (unat m)"
  by (simp add: indices_def del: upt_Suc)

lemma median_loop_indices:
  fixes h :: "64 word \<Rightarrow> 64 word" and m :: "64 word"
  defines "n \<equiv> numObjs_loop h (indices m) 0"
  defines "med \<equiv> median_loop h (n div 2) (indices m) 0"
  shows "med \<le> m \<and> n div 2 \<le> numObjs_loop h (indices med) 0 \<and>
         (\<forall>j < med. \<not> n div 2 \<le> numObjs_loop h (indices j) 0)"
proof -
  have "n div 2 \<le> numObjs_loop h (indices m) 0" unfolding n_def by (rule word_half_le)
  from median_loop_first[OF this indices_not_Nil]
  obtain k where k: "k < length (indices m)" "med = indices m ! k"
     "n div 2 \<le> numObjs_loop h (take (Suc k) (indices m)) 0"
     "\<forall>k' < k. \<not> n div 2 \<le> numObjs_loop h (take (Suc k') (indices m)) 0"
    unfolding med_def by blast
  have kle: "k \<le> unat m" using k(1) by (simp add: length_indices)
  have medk: "med = of_nat k" using k(2) kle by (simp add: indices_nth)
  have "k < 2^64" using kle unat_lt_2p64[of m] by simp
  then have uk: "unat med = k" unfolding medk by (rule unat_of_nat64)
  have a: "med \<le> m" using kle uk by (simp add: word_le_nat_alt)
  have b: "n div 2 \<le> numObjs_loop h (indices med) 0"
    using k(3) kle by (simp add: indices_take medk)
  have c: "\<forall>j < med. \<not> n div 2 \<le> numObjs_loop h (indices j) 0"
  proof (intro allI impI)
    fix j assume "j < med"
    then have lt: "unat j < k" using uk by (simp add: word_less_nat_alt)
    then have "unat j \<le> unat m" using kle by simp
    then have "take (Suc (unat j)) (indices m) = indices j" using indices_take[of "unat j" m] by simp
    then show "\<not> n div 2 \<le> numObjs_loop h (indices j) 0" using k(4) lt by auto
  qed
  show ?thesis using a b c by blast
qed

subsection \<open>finalizeData on a dirty object\<close>

lemma new_fields:
  "hs_finalized histogramStatistics_new = False"
  "hs_histogramAlloc histogramStatistics_new = 1048576"
  "hs_histogramMax histogramStatistics_new = 0"
  "hs_histogram histogramStatistics_new = (\<lambda>_. 0)"
  by (simp_all add: histogramStatistics_new_def clearStatistics_def)

lemma finalizeData_dirty_unfold:
  assumes "\<not> hs_finalized s"
  shows "finalizeData s =
     (let h = hs_histogram s;
          is = indices (hs_histogramMax s);
          numObjs = numObjs_loop h is 0;
          mean1 = mean_loop h is 0;
          mean = (if numObjs > 1 then mean1 / real (unat numObjs) else mean1);
          stddev1 = stddev_loop h mean is 0;
          stddev = (if numObjs > 1 then sqrt (stddev1 / real (unat (numObjs - 1))) else stddev1);
          mode = mode_loop h is 0;
          median = median_loop h (numObjs div 2) is 0
      in case maddata_loop h median (hs_histogramMax s + 1) is (\<lambda>_. 0) of
           Inl e \<Rightarrow> Inl e
         | Inr maddata \<Rightarrow>
             Inr (s\<lparr>hs_numObjs := numObjs, hs_mean := mean, hs_stddev := stddev,
                     hs_mode := mode, hs_median := median,
                     hs_mad := median_loop maddata (numObjs div 2) is 0,
                     hs_finalized := True\<rparr>))"
  using assms unfolding finalizeData_def clearStatistics_def Let_def
  by (simp split: sum.split)

lemma finalizeData_dirty:
  assumes d: "\<not> hs_finalized s" and f: "finalizeData s = Inr s'"
  shows "hs_finalized s' = True"
    and "hs_histogram s' = hs_histogram s"
    and "hs_histogramMax s' = hs_histogramMax s"
    and "hs_histogramAlloc s' = hs_histogramAlloc s"
    and "hs_numObjs s' = numObjs_loop (hs_histogram s) (indices (hs_histogramMax s)) 0"
    and "hs_mode s' = mode_loop (hs_histogram s) (indices (hs_histogramMax s)) 0"
    and "hs_median s' = median_loop (hs_histogram s)
           (numObjs_loop (hs_histogram s) (indices (hs_histogramMax s)) 0 div 2)
           (indices (hs_histogramMax s)) 0"
proof -
  let ?h = "hs_histogram s" and ?is = "indices (hs_histogramMax s)"
  let ?n = "numObjs_loop ?h ?is 0"
  let ?med = "median_loop ?h (?n div 2) ?is 0"
  obtain md where md: "maddata_loop ?h ?med (hs_histogramMax s + 1) ?is (\<lambda>_. 0) = Inr md"
    using f unfolding finalizeData_dirty_unfold[OF d] Let_def
    by (cases "maddata_loop ?h ?med (hs_histogramMax s + 1) ?is (\<lambda>_. 0)") simp_all
  have s': "s' = s\<lparr>hs_numObjs := ?n,
        hs_mean := (if ?n > 1 then mean_loop ?h ?is 0 / real (unat ?n) else mean_loop ?h ?is 0),
        hs_stddev := (if ?n > 1
           then sqrt (stddev_loop ?h (if ?n > 1 then mean_loop ?h ?is 0 / real (unat ?n) else mean_loop ?h ?is 0) ?is 0 / real (unat (?n - 1)))
           else stddev_loop ?h (if ?n > 1 then mean_loop ?h ?is 0 / real (unat ?n) else mean_loop ?h ?is 0) ?is 0),
        hs_mode := mode_loop ?h ?is 0, hs_median := ?med,
        hs_mad := median_loop md (?n div 2) ?is 0,
        hs_finalized := True\<rparr>"
    using f unfolding finalizeData_dirty_unfold[OF d] Let_def md by simp
  show "hs_finalized s' = True" by (simp add: s')
  show "hs_histogram s' = hs_histogram s" by (simp add: s')
  show "hs_histogramMax s' = hs_histogramMax s" by (simp add: s')
  show "hs_histogramAlloc s' = hs_histogramAlloc s" by (simp add: s')
  show "hs_numObjs s' = ?n" by (simp add: s')
  show "hs_mode s' = mode_loop ?h ?is 0" by (simp add: s')
  show "hs_median s' = ?med" by (simp add: s')
qed

lemma add_new_small:
  assumes "d < 1048576"
  shows "add d c histogramStatistics_new =
     Some (histogramStatistics_new\<lparr>hs_histogramMax := d, hs_histogram := (\<lambda>_. 0)(d := ucast c)\<rparr>)"
proof -
  have w: "while_option (\<lambda>(array, alloc). alloc \<le> d)
             (\<lambda>(array, alloc). resizeArray array (hs_histogramMax histogramStatistics_new + 1) alloc (alloc * 2))
             (hs_histogram histogramStatistics_new, hs_histogramAlloc histogramStatistics_new)
           = Some (\<lambda>_. 0, 1048576)"
  proof -
    have "\<not> 1048576 \<le> d" using assms by (simp add: not_le)
    then show ?thesis by (subst while_option_unfold) (simp add: new_fields)
  qed
  show ?thesis
    unfolding add_def w
    by (cases "d = 0") (simp_all add: histogramStatistics_new_def clearStatistics_def word_neq_0_conv)
qed

subsection \<open>The assertion of the MAD computation\<close>

text \<open>
  Claim C5. In every state reached from a new object by calls of \<open>add\<close>, the fill loop
  of \<^verbatim>\<open>finalizeData\<close> never fails its assertion, so \<^verbatim>\<open>finalizeData\<close> returns; and the
  absolute deviation from the computed median of every index up to \<^verbatim>\<open>_histogramMax\<close> is
  below \<^verbatim>\<open>maddatamax = _histogramMax + 1\<close>.
\<close>

theorem mad_deviation_in_bounds:
  assumes "add_all ps histogramStatistics_new = Some s"
  shows "(\<exists>s'. finalizeData s = Inr s') \<and>
         (\<forall>ii \<le> hs_histogramMax s.
            (let h = hs_histogram s;
                 is = indices (hs_histogramMax s);
                 median = median_loop h (numObjs_loop h is 0 div 2) is 0
             in (if ii < median then median - ii else ii - median) < hs_histogramMax s + 1))"
proof -
  have ne: "hs_histogramMax s \<noteq> - 1"
    using add_all_max_ne_minus1[OF assms] by (simp add: new_fields)
  have "\<exists>s'. finalizeData s = Inr s'" using ne by (rule finalizeData_ok)
  moreover have "\<forall>ii \<le> hs_histogramMax s.
            (let h = hs_histogram s;
                 is = indices (hs_histogramMax s);
                 median = median_loop h (numObjs_loop h is 0 div 2) is 0
             in (if ii < median then median - ii else ii - median) < hs_histogramMax s + 1)"
  proof (intro allI impI)
    fix ii assume ii: "ii \<le> hs_histogramMax s"
    let ?med = "median_loop (hs_histogram s) (numObjs_loop (hs_histogram s) (indices (hs_histogramMax s)) 0 div 2)
                  (indices (hs_histogramMax s)) 0"
    have "(if ii < ?med then ?med - ii else ii - ?med) \<le> hs_histogramMax s"
      using deviation_le[OF ii median_le_max] .
    then have "\<not> hs_histogramMax s + 1 \<le> (if ii < ?med then ?med - ii else ii - ?med)"
      using le_max_less_succ[OF _ ne] by blast
    then show "let h = hs_histogram s;
                 is = indices (hs_histogramMax s);
                 median = median_loop h (numObjs_loop h is 0 div 2) is 0
             in (if ii < median then median - ii else ii - median) < hs_histogramMax s + 1"
      by (simp add: Let_def not_le)
  qed
  ultimately show ?thesis by blast
qed

theorem mad_deviation_in_bounds_witness:
  "add_all [(0, 7), (9, 1)] histogramStatistics_new \<noteq> None \<and>
   (\<exists>s'. finalizeData (the (add_all [(0, 7), (9, 1)] histogramStatistics_new)) = Inr s')"
proof -
  have a: "add_all [(0, 7), (9, 1)] histogramStatistics_new =
        Some (histogramStatistics_new\<lparr>hs_histogramMax := 9, hs_histogram := (\<lambda>_. 0)(0 := 7, 9 := 1)\<rparr>)"
    by (simp add: add_def histogramStatistics_new_def clearStatistics_def while_option_unfold)
  show ?thesis using mad_deviation_in_bounds[OF a] a by simp
qed

subsection \<open>Evaluating on small objects\<close>

lemma add_within_capacity:
  assumes "d < hs_histogramAlloc s"
  shows "add d c s =
     Some (s\<lparr>hs_histogramAlloc := hs_histogramAlloc s,
             hs_histogramMax := (if hs_histogramMax s < d then d else hs_histogramMax s),
             hs_histogram := (hs_histogram s)(d := hs_histogram s d + ucast c),
             hs_finalized := False\<rparr>)"
proof -
  have "\<not> hs_histogramAlloc s \<le> d" using assms by (simp add: not_le)
  then have w: "while_option (\<lambda>(array, alloc). alloc \<le> d)
             (\<lambda>(array, alloc). resizeArray array (hs_histogramMax s + 1) alloc (alloc * 2))
             (hs_histogram s, hs_histogramAlloc s)
           = Some (hs_histogram s, hs_histogramAlloc s)"
    by (subst while_option_unfold) simp
  show ?thesis unfolding add_def w by simp
qed

lemma indices_5: "indices 5 = [0, 1, 2, 3, 4, 5]"
  by (simp add: indices_def upt_rec)

lemma indices_0: "indices 0 = [0]"
  by (simp add: indices_def)

lemma add_marks_dirty: "add d c s = Some s' \<Longrightarrow> \<not> hs_finalized s'"
  by (auto simp: add_def split: option.splits)


subsection \<open>The mode\<close>

text \<open>
  Claim C8. When \<^verbatim>\<open>finalizeData\<close> recomputes (the object is dirty and its array bounds
  hold), the mode it stores is an index up to \<^verbatim>\<open>_histogramMax\<close> whose bucket is at least
  as large as every bucket up to \<^verbatim>\<open>_histogramMax\<close>, and every smaller index has a
  strictly smaller bucket: the smallest index of maximal frequency. For the histogram
  \<open>{0:3, 5:3}\<close> it is 0.
\<close>

theorem mode_is_first_maximum:
  assumes dirty: "\<not> hs_finalized s" and wf: "hs_histogramMax s < hs_histogramAlloc s"
  shows "\<exists>s'. finalizeData s = Inr s' \<and>
           hs_mode s' \<le> hs_histogramMax s \<and>
           (\<forall>j \<le> hs_histogramMax s. hs_histogram s j \<le> hs_histogram s (hs_mode s')) \<and>
           (\<forall>j < hs_mode s'. hs_histogram s j < hs_histogram s (hs_mode s'))"
proof -
  have "hs_histogramMax s \<noteq> - 1" using wf by auto
  then obtain s' where s': "finalizeData s = Inr s'" using finalizeData_ok by blast
  have mo: "hs_mode s' = mode_loop (hs_histogram s) (indices (hs_histogramMax s)) 0"
    by (rule finalizeData_dirty(6)[OF dirty s'])
  note r = mode_loop_indices[of "hs_histogram s" "hs_histogramMax s", folded mo]
  show ?thesis using s' r by blast
qed

theorem mode_is_first_maximum_witness:
  "add_all [(0, 3), (5, 3)] histogramStatistics_new \<noteq> None \<and>
   (\<exists>s'. finalizeData (the (add_all [(0, 3), (5, 3)] histogramStatistics_new)) = Inr s' \<and>
         hs_mode s' = 0)"
proof -
  let ?s = "histogramStatistics_new\<lparr>hs_histogramMax := 5, hs_histogram := (\<lambda>_. 0)(0 := 3, 5 := 3)\<rparr>"
  have a: "add_all [(0, 3), (5, 3)] histogramStatistics_new = Some ?s"
    by (simp add: add_def histogramStatistics_new_def clearStatistics_def while_option_unfold)
  have d: "\<not> hs_finalized ?s" by (simp add: new_fields)
  have w: "hs_histogramMax ?s < hs_histogramAlloc ?s" by (simp add: new_fields)
  from mode_is_first_maximum[OF d w] obtain s' where s': "finalizeData ?s = Inr s'"
    "\<forall>j < hs_mode s'. hs_histogram ?s j < hs_histogram ?s (hs_mode s')"
    "\<forall>j \<le> hs_histogramMax ?s. hs_histogram ?s j \<le> hs_histogram ?s (hs_mode s')"
    by blast
  have "hs_mode s' = 0"
  proof (rule ccontr)
    assume "hs_mode s' \<noteq> 0"
    then have "0 < hs_mode s'" by (simp add: word_neq_0_conv)
    then have lt: "hs_histogram ?s 0 < hs_histogram ?s (hs_mode s')" using s'(2) by blast
    have "hs_histogram ?s (hs_mode s') \<le> 3" by simp
    moreover have "hs_histogram ?s 0 = 3" by simp
    ultimately show False using lt by simp
  qed
  then show ?thesis using a s'(1) by simp
qed


subsection \<open>The median\<close>

text \<open>
  What the median loop computes: the first index whose running sum of buckets reaches
  \<^verbatim>\<open>_numObjs / 2\<close>, the quotient of the unsigned 64-bit division, which rounds down.
\<close>

lemma median_first_reaching_floor_half:
  assumes dirty: "\<not> hs_finalized s" and wf: "hs_histogramMax s < hs_histogramAlloc s"
  shows "\<exists>s'. finalizeData s = Inr s' \<and>
           hs_numObjs s' = numObjs_loop (hs_histogram s) (indices (hs_histogramMax s)) 0 \<and>
           hs_median s' \<le> hs_histogramMax s \<and>
           hs_numObjs s' div 2 \<le> numObjs_loop (hs_histogram s) (indices (hs_median s')) 0 \<and>
           (\<forall>j < hs_median s'. numObjs_loop (hs_histogram s) (indices j) 0 < hs_numObjs s' div 2)"
proof -
  have "hs_histogramMax s \<noteq> - 1" using wf by auto
  then obtain s' where s': "finalizeData s = Inr s'" using finalizeData_ok by blast
  note n = finalizeData_dirty(5)[OF dirty s']
  note med = finalizeData_dirty(7)[OF dirty s', folded n]
  note r = median_loop_indices[of "hs_histogram s" "hs_histogramMax s", folded n, folded med]
  show ?thesis using s' n r by (auto simp: not_le)
qed

lemma median_dirty:
  assumes dirty: "\<not> hs_finalized s" and ne: "hs_histogramMax s \<noteq> - 1"
  shows "\<exists>s'. median s = Inr (median_loop (hs_histogram s)
           (numObjs_loop (hs_histogram s) (indices (hs_histogramMax s)) 0 div 2)
           (indices (hs_histogramMax s)) 0, s')"
proof -
  obtain s' where s': "finalizeData s = Inr s'" using finalizeData_ok[OF ne] by blast
  show ?thesis using finalizeData_dirty(7)[OF dirty s'] s' by (simp add: median_def)
qed


text \<open>
  Claim C4. The claim says that the median is the first index whose cumulative
  frequency reaches at least half the total count. For the single sample 5 the total
  is 1 and the cumulative frequency is 0 at every index below 5 and 1 at index 5, so
  the claim says 5. The source compares with \<^verbatim>\<open>_numObjs / 2 = 0\<close>, which the empty
  running sum reaches at index 0 already, and reports the median 0, a value that was
  never added.
\<close>

theorem median_of_single_sample:
  "\<exists>s s' s''. add 5 1 histogramStatistics_new = Some s \<and>
      numberOfObjects s = Inr (1, s') \<and> median s = Inr (0, s'') \<and>
      numObjs_loop (hs_histogram s) (indices 0) 0 = 0 \<and>
      numObjs_loop (hs_histogram s) (indices 5) 0 = 1"
  by (simp add: add_new_small median_def numberOfObjects_def finalizeData_def new_fields
      clearStatistics_def indices_5 numObjs_loop_def mean_loop_def stddev_loop_def mode_loop_def
      Let_def indices_0)

text \<open>The example of the claim, an even total, comes out as the claim says.\<close>

lemma median_example_1234:
  "\<exists>s s'. add_all [(1, 1), (2, 1), (3, 1), (4, 1)] histogramStatistics_new = Some s \<and>
      median s = Inr (2, s')"
proof -
  let ?s = "histogramStatistics_new\<lparr>hs_histogramMax := 4,
              hs_histogram := (\<lambda>_. 0)(1 := 1, 2 := 1, 3 := 1, 4 := 1)\<rparr>"
  have i: "indices 4 = [0, 1, 2, 3, 4]" by (simp add: indices_def upt_rec)
  have a: "add_all [(1, 1), (2, 1), (3, 1), (4, 1)] histogramStatistics_new = Some ?s"
    by (simp add: add_within_capacity histogramStatistics_new_def clearStatistics_def)
  have d: "\<not> hs_finalized ?s" and ne: "hs_histogramMax ?s \<noteq> - 1" by (simp_all add: new_fields)
  have "median_loop (hs_histogram ?s)
           (numObjs_loop (hs_histogram ?s) (indices (hs_histogramMax ?s)) 0 div 2)
           (indices (hs_histogramMax ?s)) 0 = 2"
    by (simp add: i numObjs_loop_def word_le_nat_alt)
  then show ?thesis using median_dirty[OF d ne] a by simp
qed

subsection \<open>Which accessors finalize\<close>

lemma finalizeData_ignores_cache:
  assumes dirty: "\<not> hs_finalized s"
  shows "finalizeData (s\<lparr>hs_numObjs := a, hs_mean := b, hs_stddev := c, hs_mode := d,
            hs_median := e, hs_mad := f\<rparr>) = finalizeData s"
proof -
  let ?t = "s\<lparr>hs_numObjs := a, hs_mean := b, hs_stddev := c, hs_mode := d,
            hs_median := e, hs_mad := f\<rparr>"
  have dt: "\<not> hs_finalized ?t" using dirty by simp
  show ?thesis
    unfolding finalizeData_dirty_unfold[OF dt] finalizeData_dirty_unfold[OF dirty]
    by (simp add: Let_def split: sum.split)
qed


text \<open>
  Claim C2, as the source has it. On a dirty object whose array bounds hold, the five
  statistic accessors \<open>numberOfObjects\<close>, \<open>mean\<close>, \<open>stddev\<close>, \<open>median\<close> and \<open>mad\<close>
  run \<^verbatim>\<open>finalizeData\<close> first: each returns the member of the finalized object, leaves
  the object finalized, and the result does not depend on what the cache held before.
  \<open>histogram(ii)\<close> and \<open>histogramMax\<close> read the array and the high-water index, which
  are not cached statistics, and leave the object as it is.
\<close>

theorem statistic_accessors_finalize:
  assumes dirty: "\<not> hs_finalized s" and wf: "hs_histogramMax s < hs_histogramAlloc s"
  shows "\<exists>s'. finalizeData s = Inr s' \<and> hs_finalized s' \<and>
           (\<forall>a b c d e f. finalizeData (s\<lparr>hs_numObjs := a, hs_mean := b, hs_stddev := c,
                hs_mode := d, hs_median := e, hs_mad := f\<rparr>) = Inr s') \<and>
           numberOfObjects s = Inr (hs_numObjs s', s') \<and>
           mean s = Inr (hs_mean s', s') \<and>
           stddev s = Inr (hs_stddev s', s') \<and>
           median s = Inr (hs_median s', s') \<and>
           mad s = Inr (hs_mad s', s') \<and>
           histogram ii s = (hs_histogram s ii, s) \<and>
           histogramMax s = (hs_histogramMax s, s)"
proof -
  have "hs_histogramMax s \<noteq> - 1" using wf by auto
  then obtain s' where s': "finalizeData s = Inr s'" using finalizeData_ok by blast
  have fin: "hs_finalized s'" using finalizeData_dirty(1)[OF dirty s'] by simp
  have ign: "\<forall>a b c d e f. finalizeData (s\<lparr>hs_numObjs := a, hs_mean := b, hs_stddev := c,
                hs_mode := d, hs_median := e, hs_mad := f\<rparr>) = Inr s'"
    using finalizeData_ignores_cache[OF dirty] s' by simp
  have acc: "numberOfObjects s = Inr (hs_numObjs s', s')" "mean s = Inr (hs_mean s', s')"
    "stddev s = Inr (hs_stddev s', s')" "median s = Inr (hs_median s', s')"
    "mad s = Inr (hs_mad s', s')"
    by (simp_all add: numberOfObjects_def mean_def stddev_def median_def mad_def s')
  have raw: "histogram ii s = (hs_histogram s ii, s)" "histogramMax s = (hs_histogramMax s, s)"
    by (simp_all add: histogram_def histogramMax_def)
  show ?thesis using s' fin ign acc raw by blast
qed

theorem statistic_accessors_finalize_witness:
  "\<exists>s s'. add 7 1 histogramStatistics_new = Some s \<and> finalizeData s = Inr s' \<and> hs_finalized s' \<and>
      numberOfObjects s = Inr (hs_numObjs s', s') \<and> mean s = Inr (hs_mean s', s') \<and>
      stddev s = Inr (hs_stddev s', s') \<and> median s = Inr (hs_median s', s') \<and>
      mad s = Inr (hs_mad s', s') \<and> histogram 7 s = (1, s) \<and> histogramMax s = (7, s)"
proof -
  let ?s = "histogramStatistics_new\<lparr>hs_histogramMax := 7, hs_histogram := (\<lambda>_. 0)(7 := 1)\<rparr>"
  have a: "add 7 1 histogramStatistics_new = Some ?s" by (simp add: add_new_small)
  have d: "\<not> hs_finalized ?s" and w: "hs_histogramMax ?s < hs_histogramAlloc ?s"
    by (simp_all add: new_fields)
  show ?thesis using statistic_accessors_finalize[OF d w, of 7] a by auto
qed


text \<open>
  The claim as stated fails for \<open>histogram(ii)\<close> and \<open>histogramMax\<close>: after \<open>add(7)\<close>
  on a new object the cache is dirty, and it is still dirty after either call.
\<close>

theorem histogram_accessors_leave_cache_dirty_counterexample:
  "add 7 1 histogramStatistics_new \<noteq> None \<and>
   \<not> hs_finalized (the (add 7 1 histogramStatistics_new)) \<and>
   \<not> hs_finalized (snd (histogram 7 (the (add 7 1 histogramStatistics_new)))) \<and>
   \<not> hs_finalized (snd (histogramMax (the (add 7 1 histogramStatistics_new))))"
  by (simp add: add_new_small histogram_def histogramMax_def new_fields)


subsection \<open>clearStatistics\<close>

text \<open>
  Claim C10. \<open>clearStatistics\<close> leaves the array, its capacity, the high-water index
  and the finalized flag as they are and zeroes the cached statistics. Hence on a
  finalized object every statistic accessor then returns 0 and leaves the object
  unchanged (so it keeps doing that, call after call), until an \<open>add\<close>, which always
  leaves the object dirty.
\<close>

theorem clearStatistics_frame:
  "hs_histogram (clearStatistics s) = hs_histogram s \<and>
   hs_histogramAlloc (clearStatistics s) = hs_histogramAlloc s \<and>
   hs_histogramMax (clearStatistics s) = hs_histogramMax s \<and>
   hs_finalized (clearStatistics s) = hs_finalized s \<and>
   (hs_finalized s \<longrightarrow>
      numberOfObjects (clearStatistics s) = Inr (0, clearStatistics s) \<and>
      mean (clearStatistics s) = Inr (0, clearStatistics s) \<and>
      stddev (clearStatistics s) = Inr (0, clearStatistics s) \<and>
      median (clearStatistics s) = Inr (0, clearStatistics s) \<and>
      mad (clearStatistics s) = Inr (0, clearStatistics s)) \<and>
   (\<forall>d c s'. add d c (clearStatistics s) = Some s' \<longrightarrow> \<not> hs_finalized s')"
proof -
  have frame: "hs_histogram (clearStatistics s) = hs_histogram s"
    "hs_histogramAlloc (clearStatistics s) = hs_histogramAlloc s"
    "hs_histogramMax (clearStatistics s) = hs_histogramMax s"
    "hs_finalized (clearStatistics s) = hs_finalized s"
    by (simp_all add: clearStatistics_def)
  have zero: "hs_numObjs (clearStatistics s) = 0" "hs_mean (clearStatistics s) = 0"
    "hs_stddev (clearStatistics s) = 0" "hs_median (clearStatistics s) = 0"
    "hs_mad (clearStatistics s) = 0"
    by (simp_all add: clearStatistics_def)
  have acc: "hs_finalized s \<longrightarrow>
      numberOfObjects (clearStatistics s) = Inr (0, clearStatistics s) \<and>
      mean (clearStatistics s) = Inr (0, clearStatistics s) \<and>
      stddev (clearStatistics s) = Inr (0, clearStatistics s) \<and>
      median (clearStatistics s) = Inr (0, clearStatistics s) \<and>
      mad (clearStatistics s) = Inr (0, clearStatistics s)"
  proof
    assume "hs_finalized s"
    then have "finalizeData (clearStatistics s) = Inr (clearStatistics s)"
      by (simp add: finalizeData_def frame)
    then show "numberOfObjects (clearStatistics s) = Inr (0, clearStatistics s) \<and>
      mean (clearStatistics s) = Inr (0, clearStatistics s) \<and>
      stddev (clearStatistics s) = Inr (0, clearStatistics s) \<and>
      median (clearStatistics s) = Inr (0, clearStatistics s) \<and>
      mad (clearStatistics s) = Inr (0, clearStatistics s)"
      by (simp add: numberOfObjects_def mean_def stddev_def median_def mad_def zero)
  qed
  have "\<forall>d c s'. add d c (clearStatistics s) = Some s' \<longrightarrow> \<not> hs_finalized s'"
    using add_marks_dirty by blast
  then show ?thesis using frame acc by blast
qed


theorem clearStatistics_frame_witness:
  "\<exists>s s' t. add 5 1 histogramStatistics_new = Some s \<and> numberOfObjects s = Inr (1, s') \<and>
     hs_finalized s' \<and>
     numberOfObjects (clearStatistics s') = Inr (0, clearStatistics s') \<and>
     mean (clearStatistics s') = Inr (0, clearStatistics s') \<and>
     stddev (clearStatistics s') = Inr (0, clearStatistics s') \<and>
     median (clearStatistics s') = Inr (0, clearStatistics s') \<and>
     mad (clearStatistics s') = Inr (0, clearStatistics s') \<and>
     hs_histogram (clearStatistics s') 5 = 1 \<and>
     add 5 1 (clearStatistics s') = Some t \<and> \<not> hs_finalized t"
proof -
  let ?s = "histogramStatistics_new\<lparr>hs_histogramMax := 5, hs_histogram := (\<lambda>_. 0)(5 := 1)\<rparr>"
  have a: "add 5 1 histogramStatistics_new = Some ?s" by (simp add: add_new_small)
  have d: "\<not> hs_finalized ?s" and ne: "hs_histogramMax ?s \<noteq> - 1"
    by (simp_all add: new_fields)
  obtain s' where s': "finalizeData ?s = Inr s'" using finalizeData_ok[OF ne] by blast
  have fin: "hs_finalized s'" using finalizeData_dirty(1)[OF d s'] by simp
  have "hs_numObjs s' = 1"
    using finalizeData_dirty(5)[OF d s'] by (simp add: indices_5 numObjs_loop_def)
  then have n: "numberOfObjects ?s = Inr (1, s')" by (simp add: numberOfObjects_def s')
  have h: "hs_histogram s' 5 = 1" using finalizeData_dirty(2)[OF d s'] by simp
  have al: "5 < hs_histogramAlloc (clearStatistics s')"
    using finalizeData_dirty(4)[OF d s'] by (simp add: clearStatistics_def new_fields)
  obtain t where t: "add 5 1 (clearStatistics s') = Some t"
    using add_within_capacity[OF al] by blast
  show ?thesis using clearStatistics_frame[of s'] fin a n h t by auto
qed


subsection \<open>The growth loop of add\<close>

lemma len64: "LENGTH(64) = 64"
  by simp

lemma p2_unat: "k \<le> 63 \<Longrightarrow> unat (2 ^ k :: 64 word) = 2 ^ k"
proof -
  assume "k \<le> 63"
  then have "k < 64" by simp
  then have lt: "(2::nat) ^ k < 2 ^ 64" by (rule power_strict_increasing) simp
  have "unat (of_nat (2 ^ k) :: 64 word) = 2 ^ k"
    using lt by (simp only: unat_of_nat len64 mod_less)
  then show ?thesis by simp
qed

lemma grow_loop:
  fixes h :: "64 word \<Rightarrow> 64 word"
  assumes d: "unat d < 2 ^ 63" and fixp: "(\<lambda>i. if i < len then h i else 0) = h"
  shows "k \<le> 63 \<Longrightarrow>
     \<exists>k'. k \<le> k' \<and> k' \<le> 63 \<and>
        while_option (\<lambda>(array, alloc). alloc \<le> d)
          (\<lambda>(array, alloc). resizeArray array len alloc (alloc * 2)) (h, 2 ^ k) = Some (h, 2 ^ k') \<and>
        unat d < 2 ^ k' \<and> (k < k' \<longrightarrow> 2 ^ (k' - 1) \<le> unat d)"
proof (induction "63 - k" arbitrary: k)
  case 0
  then have k: "k = 63" by simp
  have "\<not> (2 ^ k :: 64 word) \<le> d" using d by (simp add: word_le_nat_alt k p2_unat)
  then have "while_option (\<lambda>(array, alloc). alloc \<le> d)
          (\<lambda>(array, alloc). resizeArray array len alloc (alloc * 2)) (h, 2 ^ k) = Some (h, 2 ^ k)"
    by (subst while_option_unfold) simp
  then show ?case using d k by auto
next
  case (Suc n)
  then have k: "k < 63" by simp
  show ?case
  proof (cases "(2 ^ k :: 64 word) \<le> d")
    case False
    then have "while_option (\<lambda>(array, alloc). alloc \<le> d)
          (\<lambda>(array, alloc). resizeArray array len alloc (alloc * 2)) (h, 2 ^ k) = Some (h, 2 ^ k)"
      by (subst while_option_unfold) simp
    moreover have "unat d < 2 ^ k" using False k by (simp add: word_le_nat_alt p2_unat)
    ultimately show ?thesis using k by auto
  next
    case True
    have step: "while_option (\<lambda>(array, alloc). alloc \<le> d)
          (\<lambda>(array, alloc). resizeArray array len alloc (alloc * 2)) (h, 2 ^ k) =
        while_option (\<lambda>(array, alloc). alloc \<le> d)
          (\<lambda>(array, alloc). resizeArray array len alloc (alloc * 2)) (h, 2 ^ Suc k)"
      using True by (subst while_option_unfold) (simp add: resizeArray_def fixp mult.commute)
    have "n = 63 - Suc k" "Suc k \<le> 63" using Suc.hyps(2) k by simp_all
    from Suc.hyps(1)[OF this] obtain k' where k': "Suc k \<le> k'" "k' \<le> 63"
       "while_option (\<lambda>(array, alloc). alloc \<le> d)
          (\<lambda>(array, alloc). resizeArray array len alloc (alloc * 2)) (h, 2 ^ Suc k) = Some (h, 2 ^ k')"
       "unat d < 2 ^ k'" "Suc k < k' \<longrightarrow> 2 ^ (k' - 1) \<le> unat d"
      by blast
    have le: "2 ^ k \<le> unat d" using True k by (simp add: word_le_nat_alt p2_unat)
    have "k < k' \<longrightarrow> 2 ^ (k' - 1) \<le> unat d"
    proof
      assume "k < k'"
      show "2 ^ (k' - 1) \<le> unat d"
      proof (cases "k' = Suc k")
        case True
        then show ?thesis using le by simp
      next
        case False
        then show ?thesis using k'(1,5) by simp
      qed
    qed
    then show ?thesis using k' step by (intro exI[of _ k']) simp
  qed
qed

lemma capacity_inv_new: "capacity_inv histogramStatistics_new"
  unfolding capacity_inv_def new_fields
  by (intro conjI exI[of _ 20]) simp_all

lemma capacity_inv_trunc:
  assumes "capacity_inv s"
  shows "(\<lambda>i. if i < hs_histogramMax s + 1 then hs_histogram s i else 0) = hs_histogram s"
proof
  fix i
  obtain k where k: "k \<le> 63" "unat (hs_histogramMax s) < 2 ^ k"
    using assms by (auto simp: capacity_inv_def)
  have "(2::nat) ^ k \<le> 2 ^ 63" using k(1) by (intro power_increasing) simp_all
  with k(2) have "unat (hs_histogramMax s) < 2 ^ 63" by (rule less_le_trans)
  moreover have "unat (- 1 :: 64 word) = 18446744073709551615"
    by (simp add: unsigned_minus_1_eq_mask mask_eq_exp_minus_1)
  ultimately have ne: "hs_histogramMax s \<noteq> - 1" by auto
  show "(if i < hs_histogramMax s + 1 then hs_histogram s i else 0) = hs_histogram s i"
  proof (cases "i \<le> hs_histogramMax s")
    case True
    then have "i < hs_histogramMax s + 1" using le_max_less_succ[OF True ne] by simp
    then show ?thesis by simp
  next
    case False
    then have "hs_histogram s i = 0" using assms by (simp add: capacity_inv_def not_le)
    then show ?thesis by simp
  qed
qed

lemma add_closed:
  assumes inv: "capacity_inv s" and d: "unat d < 2 ^ 63"
  shows "\<exists>a. add d c s =
           Some (s\<lparr>hs_histogramAlloc := a,
                   hs_histogramMax := max (hs_histogramMax s) d,
                   hs_histogram := (hs_histogram s)(d := hs_histogram s d + ucast c),
                   hs_finalized := False\<rparr>) \<and>
           capacity_inv (s\<lparr>hs_histogramAlloc := a,
                   hs_histogramMax := max (hs_histogramMax s) d,
                   hs_histogram := (hs_histogram s)(d := hs_histogram s d + ucast c),
                   hs_finalized := False\<rparr>)"
proof -
  obtain k where k: "20 \<le> k" "k \<le> 63" "hs_histogramAlloc s = 2 ^ k"
      "unat (hs_histogramMax s) < 2 ^ k" "20 < k \<longrightarrow> 2 ^ (k - 1) \<le> unat (hs_histogramMax s)"
    and z: "\<forall>i. hs_histogramMax s < i \<longrightarrow> hs_histogram s i = 0"
    using inv by (auto simp: capacity_inv_def)
  from grow_loop[OF d capacity_inv_trunc[OF inv] k(2)]
  obtain k' where k': "k \<le> k'" "k' \<le> 63"
      "while_option (\<lambda>(array, alloc). alloc \<le> d)
          (\<lambda>(array, alloc). resizeArray array (hs_histogramMax s + 1) alloc (alloc * 2))
          (hs_histogram s, 2 ^ k) = Some (hs_histogram s, 2 ^ k')"
      "unat d < 2 ^ k'" "k < k' \<longrightarrow> 2 ^ (k' - 1) \<le> unat d"
    by blast
  let ?m = "max (hs_histogramMax s) d"
  let ?s' = "s\<lparr>hs_histogramAlloc := 2 ^ k',
                   hs_histogramMax := ?m,
                   hs_histogram := (hs_histogram s)(d := hs_histogram s d + ucast c),
                   hs_finalized := False\<rparr>"
  have mx: "(if hs_histogramMax s < d then d else hs_histogramMax s) = ?m"
    by (auto simp: max_def)
  have eq: "add d c s = Some ?s'"
    unfolding add_def k(3) k'(3) mx by simp
  have um: "unat ?m = max (unat (hs_histogramMax s)) (unat d)"
    by (simp add: max_def word_le_nat_alt)
  have "(2::nat) ^ k \<le> 2 ^ k'" using k'(1) by (intro power_increasing) simp_all
  with k(4) have "unat (hs_histogramMax s) < 2 ^ k'" by (rule less_le_trans)
  then have lt: "unat ?m < 2 ^ k'" using k'(4) um by simp
  have lo: "20 < k' \<longrightarrow> 2 ^ (k' - 1) \<le> unat ?m"
  proof
    assume a: "20 < k'"
    show "2 ^ (k' - 1) \<le> unat ?m"
    proof (cases "k < k'")
      case True
      then show ?thesis using k'(5) um by simp
    next
      case False
      then have "k' = k" using k'(1) by simp
      then show ?thesis using k(5) a um by simp
    qed
  qed
  have zero: "\<forall>i. ?m < i \<longrightarrow> ((hs_histogram s)(d := hs_histogram s d + ucast c)) i = 0"
  proof (intro allI impI)
    fix i assume "?m < i"
    then have "hs_histogramMax s < i" "d < i" by (simp_all add: max_less_iff_conj)
    then show "((hs_histogram s)(d := hs_histogram s d + ucast c)) i = 0" using z by auto
  qed
  have "capacity_inv ?s'"
    unfolding capacity_inv_def using k(1) k'(1,2) lt lo zero
    by (simp) (intro exI[of _ k'], simp)
  then show ?thesis using eq by blast
qed

subsection \<open>Order and grouping of the calls of add\<close>

lemma Max_insert_max:
  fixes a b :: "'a::linorder"
  assumes "finite S"
  shows "Max (insert (max a b) S) = Max (insert a (insert b S))"
proof (cases "S = {}")
  case True
  then show ?thesis by (simp add: max.commute)
next
  case False
  then show ?thesis using assms by (simp add: max.assoc)
qed

lemma samples_Nil: "samples [] = {#}"
  by (simp add: samples_def)

lemma samples_Cons: "samples ((d, c) # ps) = replicate_mset (unat c) d + samples ps"
  by (simp add: samples_def)

lemma add_all_closed:
  assumes "capacity_inv s" and "\<forall>(d, c) \<in> set ps. unat d < 2 ^ 63"
  shows "\<exists>a. add_all ps s =
           Some (s\<lparr>hs_histogramAlloc := a,
                   hs_histogramMax := Max (insert (hs_histogramMax s) (fst ` set ps)),
                   hs_histogram := (\<lambda>i. hs_histogram s i + of_nat (count (samples ps) i)),
                   hs_finalized := (ps = [] \<and> hs_finalized s)\<rparr>) \<and>
           capacity_inv (s\<lparr>hs_histogramAlloc := a,
                   hs_histogramMax := Max (insert (hs_histogramMax s) (fst ` set ps)),
                   hs_histogram := (\<lambda>i. hs_histogram s i + of_nat (count (samples ps) i)),
                   hs_finalized := (ps = [] \<and> hs_finalized s)\<rparr>)"
  using assms
proof (induction ps arbitrary: s)
  case Nil
  have "s\<lparr>hs_histogramAlloc := hs_histogramAlloc s,
           hs_histogramMax := Max (insert (hs_histogramMax s) (fst ` set [])),
           hs_histogram := (\<lambda>i. hs_histogram s i + of_nat (count (samples []) i)),
           hs_finalized := ([] = [] \<and> hs_finalized s)\<rparr> = s"
    by (simp add: samples_Nil)
  then show ?case using Nil.prems(1) by (intro exI[of _ "hs_histogramAlloc s"]) simp
next
  case (Cons p ps)
  obtain d c where p: "p = (d, c)" by (cases p)
  have d: "unat d < 2 ^ 63" and rest: "\<forall>(d, c) \<in> set ps. unat d < 2 ^ 63"
    using Cons.prems(2) by (auto simp: p)
  let ?s1 = "\<lambda>a. s\<lparr>hs_histogramAlloc := a,
                   hs_histogramMax := max (hs_histogramMax s) d,
                   hs_histogram := (hs_histogram s)(d := hs_histogram s d + ucast c),
                   hs_finalized := False\<rparr>"
  obtain a1 where a1: "add d c s = Some (?s1 a1)" "capacity_inv (?s1 a1)"
    using add_closed[OF Cons.prems(1) d] by blast
  let ?res = "\<lambda>t a. t\<lparr>hs_histogramAlloc := a,
                   hs_histogramMax := Max (insert (hs_histogramMax t) (fst ` set ps)),
                   hs_histogram := (\<lambda>i. hs_histogram t i + of_nat (count (samples ps) i)),
                   hs_finalized := (ps = [] \<and> hs_finalized t)\<rparr>"
  obtain a where a: "add_all ps (?s1 a1) = Some (?res (?s1 a1) a)" "capacity_inv (?res (?s1 a1) a)"
    using Cons.IH[OF a1(2) rest] by blast
  have mx: "Max (insert (max (hs_histogramMax s) d) (fst ` set ps)) =
            Max (insert (hs_histogramMax s) (fst ` set (p # ps)))"
    by (simp add: Max_insert_max p)
  have hh: "(\<lambda>i. ((hs_histogram s)(d := hs_histogram s d + ucast c)) i + of_nat (count (samples ps) i)) =
            (\<lambda>i. hs_histogram s i + of_nat (count (samples (p # ps)) i))"
    by (auto simp: fun_eq_iff p samples_Cons)
  have eq0: "?res (?s1 a1) a =
        s\<lparr>hs_histogramAlloc := a,
           hs_histogramMax := Max (insert (max (hs_histogramMax s) d) (fst ` set ps)),
           hs_histogram := (\<lambda>i. ((hs_histogram s)(d := hs_histogram s d + ucast c)) i + of_nat (count (samples ps) i)),
           hs_finalized := False\<rparr>"
    by simp
  have eq: "?res (?s1 a1) a =
        s\<lparr>hs_histogramAlloc := a,
           hs_histogramMax := Max (insert (hs_histogramMax s) (fst ` set (p # ps))),
           hs_histogram := (\<lambda>i. hs_histogram s i + of_nat (count (samples (p # ps)) i)),
           hs_finalized := (p # ps = [] \<and> hs_finalized s)\<rparr>"
    unfolding eq0 mx hh by simp
  have "add_all (p # ps) s = Some (?res (?s1 a1) a)"
    using a1(1) a(1) by (simp add: p)
  then show ?case using a(2) unfolding eq by blast
qed

lemma capacity_inv_alloc_le:
  assumes s: "capacity_inv s" and t: "capacity_inv t"
    and m: "hs_histogramMax s = hs_histogramMax t"
    and ks: "hs_histogramAlloc s = 2 ^ k" "20 \<le> k" "k \<le> 63" "unat (hs_histogramMax s) < 2 ^ k"
    and kt: "hs_histogramAlloc t = 2 ^ k'" "k' \<le> 63" "20 < k' \<longrightarrow> 2 ^ (k' - 1) \<le> unat (hs_histogramMax t)"
  shows "k' \<le> k"
proof (rule ccontr)
  assume "\<not> k' \<le> k"
  then have lt: "k < k'" by simp
  then have "20 < k'" using ks(2) by simp
  then have "2 ^ (k' - 1) \<le> unat (hs_histogramMax s)" using kt(3) m by simp
  moreover have "(2::nat) ^ k \<le> 2 ^ (k' - 1)" using lt by (intro power_increasing) simp_all
  ultimately show False using ks(4) by linarith
qed

lemma capacity_inv_alloc_unique:
  assumes s: "capacity_inv s" and t: "capacity_inv t"
    and m: "hs_histogramMax s = hs_histogramMax t"
  shows "hs_histogramAlloc s = hs_histogramAlloc t"
proof -
  obtain k where k: "20 \<le> k" "k \<le> 63" "hs_histogramAlloc s = 2 ^ k"
      "unat (hs_histogramMax s) < 2 ^ k" "20 < k \<longrightarrow> 2 ^ (k - 1) \<le> unat (hs_histogramMax s)"
    using s by (auto simp: capacity_inv_def)
  obtain k' where k': "20 \<le> k'" "k' \<le> 63" "hs_histogramAlloc t = 2 ^ k'"
      "unat (hs_histogramMax t) < 2 ^ k'" "20 < k' \<longrightarrow> 2 ^ (k' - 1) \<le> unat (hs_histogramMax t)"
    using t by (auto simp: capacity_inv_def)
  have "k' \<le> k" using capacity_inv_alloc_le[OF s t m k(3,1,2,4) k'(3,2,5)] .
  moreover have "k \<le> k'" using capacity_inv_alloc_le[OF t s m[symmetric] k'(3,1,2,4) k(3,2,5)] .
  ultimately show ?thesis using k(3) k'(3) by simp
qed

lemma set_mset_samples:
  "\<forall>(d, c) \<in> set ps. c \<noteq> 0 \<Longrightarrow> set_mset (samples ps) = fst ` set ps"
proof (induction ps)
  case Nil
  then show ?case by (simp add: samples_Nil)
next
  case (Cons p ps)
  obtain d c where p: "p = (d, c)" by (cases p)
  have "c \<noteq> 0" using Cons.prems by (simp add: p)
  then have "unat c \<noteq> 0" by (simp add: unat_eq_0)
  then have "set_mset (replicate_mset (unat c) d) = {d}" by simp
  moreover have "set_mset (samples ps) = fst ` set ps" using Cons by simp
  ultimately show ?case by (simp add: p samples_Cons)
qed

lemma samples_units: "samples (map (\<lambda>v. (v, 1)) us) = mset us"
  by (induction us) (simp_all add: samples_Nil samples_Cons)

lemma add_all_same_statistics:
  assumes ps: "\<forall>(d, c) \<in> set ps. c \<noteq> 0 \<and> unat d < 2 ^ 63"
    and us: "mset us = samples ps"
  shows "\<exists>s1 s2 r. add_all ps histogramStatistics_new = Some s1 \<and>
           add_all (map (\<lambda>v. (v, 1)) us) histogramStatistics_new = Some s2 \<and>
           statistics s1 = Inr r \<and> statistics s2 = Inr r"
proof -
  let ?qs = "map (\<lambda>v. (v, 1 :: 32 word)) us"
  let ?n = histogramStatistics_new
  have nz: "\<forall>(d, c) \<in> set ps. c \<noteq> 0" and bd: "\<forall>(d, c) \<in> set ps. unat d < 2 ^ 63"
    using ps by auto
  have sq: "samples ?qs = samples ps" using us by (simp add: samples_units)
  have "set us = set_mset (samples ps)" using us by (metis set_mset_mset)
  then have su: "set us = fst ` set ps" using set_mset_samples[OF nz] by simp
  have fq: "fst ` set ?qs = fst ` set ps" using su by (simp add: image_image)
  have bq: "\<forall>(d, c) \<in> set ?qs. unat d < 2 ^ 63"
  proof -
    have "\<forall>v \<in> set us. unat v < 2 ^ 63" using bd su by auto
    then show ?thesis by auto
  qed
  let ?res = "\<lambda>xs a. ?n\<lparr>hs_histogramAlloc := a,
                   hs_histogramMax := Max (insert (hs_histogramMax ?n) (fst ` set xs)),
                   hs_histogram := (\<lambda>i. hs_histogram ?n i + of_nat (count (samples xs) i)),
                   hs_finalized := (xs = [] \<and> hs_finalized ?n)\<rparr>"
  obtain a1 where a1: "add_all ps ?n = Some (?res ps a1)" "capacity_inv (?res ps a1)"
    using add_all_closed[OF capacity_inv_new bd] by blast
  obtain a2 where a2: "add_all ?qs ?n = Some (?res ?qs a2)" "capacity_inv (?res ?qs a2)"
    using add_all_closed[OF capacity_inv_new bq] by blast
  have mx: "hs_histogramMax (?res ps a1) = hs_histogramMax (?res ?qs a2)"
    unfolding fq by simp
  have "hs_histogramAlloc (?res ps a1) = hs_histogramAlloc (?res ?qs a2)"
    by (rule capacity_inv_alloc_unique[OF a1(2) a2(2) mx])
  then have al: "a1 = a2" by simp
  have same: "?res ?qs a2 = ?res ps a1"
    unfolding al sq fq by (simp add: new_fields)
  have "hs_histogramMax (?res ps a1) \<noteq> - 1"
    using add_all_max_ne_minus1[OF a1(1)] by (simp add: new_fields)
  then obtain s' where s': "finalizeData (?res ps a1) = Inr s'"
    using finalizeData_ok by blast
  then obtain r where r: "statistics (?res ps a1) = Inr r" by (simp add: statistics_def)
  show ?thesis using a1(1) a2(1) r unfolding same by blast
qed

lemma while_option_stuck:
  assumes "b s" "c s = s"
  shows "while_option b c s = None"
proof -
  have "(c ^^ k) s = s" for k by (induction k) (simp_all add: assms(2))
  then have "\<not> (\<exists>k. \<not> b ((c ^^ k) s))" using assms(1) by simp
  then show ?thesis unfolding while_option_def by simp
qed

lemma grow_loop_None:
  fixes h :: "64 word \<Rightarrow> 64 word"
  assumes d: "2 ^ 63 \<le> unat d" and fixp: "(\<lambda>i. if i < len then h i else 0) = h"
  shows "k \<le> 63 \<Longrightarrow>
        while_option (\<lambda>(array, alloc). alloc \<le> d)
          (\<lambda>(array, alloc). resizeArray array len alloc (alloc * 2)) (h, 2 ^ k) = None"
proof (induction "63 - k" arbitrary: k)
  case 0
  then have k: "k = 63" by simp
  have "(2::nat) ^ k \<le> unat d" using d k by simp
  then have le: "(2 ^ k :: 64 word) \<le> d" using k by (simp only: word_le_nat_alt p2_unat)
  have step: "while_option (\<lambda>(array, alloc). alloc \<le> d)
          (\<lambda>(array, alloc). resizeArray array len alloc (alloc * 2)) (h, 2 ^ k) =
        while_option (\<lambda>(array, alloc). alloc \<le> d)
          (\<lambda>(array, alloc). resizeArray array len alloc (alloc * 2)) (h, 2 ^ Suc k)"
    using le by (subst while_option_unfold) (simp add: resizeArray_def fixp mult.commute)
  have "LENGTH(64) \<le> Suc k" using k by simp
  then have z: "(2 ^ Suc k :: 64 word) = 0" by (simp only: exp_eq_zero_iff)
  have "while_option (\<lambda>(array, alloc). alloc \<le> d)
          (\<lambda>(array, alloc). resizeArray array len alloc (alloc * 2)) (h, 0) = None"
    by (rule while_option_stuck) (simp_all add: resizeArray_def fixp)
  then show ?case unfolding step z .
next
  case (Suc n)
  then have k: "k < 63" by simp
  then have "(2::nat) ^ k \<le> 2 ^ 63" by (intro power_increasing) simp_all
  with d have "2 ^ k \<le> unat d" by linarith
  then have le: "(2 ^ k :: 64 word) \<le> d" using k by (simp add: word_le_nat_alt p2_unat)
  have step: "while_option (\<lambda>(array, alloc). alloc \<le> d)
          (\<lambda>(array, alloc). resizeArray array len alloc (alloc * 2)) (h, 2 ^ k) =
        while_option (\<lambda>(array, alloc). alloc \<le> d)
          (\<lambda>(array, alloc). resizeArray array len alloc (alloc * 2)) (h, 2 ^ Suc k)"
    using le by (subst while_option_unfold) (simp add: resizeArray_def fixp mult.commute)
  have "n = 63 - Suc k" "Suc k \<le> 63" using Suc.hyps(2) k by simp_all
  from Suc.hyps(1)[OF this] show ?case unfolding step .
qed

lemma add_no_return:
  assumes inv: "capacity_inv s" and d: "2 ^ 63 \<le> unat d"
  shows "add d c s = None"
proof -
  obtain k where k: "k \<le> 63" "hs_histogramAlloc s = 2 ^ k"
    using inv by (auto simp: capacity_inv_def)
  show ?thesis
    unfolding add_def k(2) grow_loop_None[OF d capacity_inv_trunc[OF inv] k(1)] by simp
qed

lemma add_all_capacity_inv:
  "add_all ps s = Some s' \<Longrightarrow> capacity_inv s \<Longrightarrow> capacity_inv s'"
proof (induction ps arbitrary: s)
  case Nil
  then show ?case by simp
next
  case (Cons p ps)
  obtain d c where p: "p = (d, c)" by (cases p)
  from Cons.prems(1) obtain s1 where s1: "add d c s = Some s1" "add_all ps s1 = Some s'"
    by (auto simp: p split: option.splits)
  have "unat d < 2 ^ 63"
  proof (rule ccontr)
    assume "\<not> unat d < 2 ^ 63"
    then have "add d c s = None" using add_no_return[OF Cons.prems(2)] by simp
    with s1(1) show False by simp
  qed
  then have "capacity_inv s1" using add_closed[OF Cons.prems(2), of d c] s1(1) by auto
  then show ?case using Cons.IH[OF s1(2)] by simp
qed

lemma capacity_inv_bounds:
  assumes "capacity_inv s"
  shows "hs_histogramMax s < hs_histogramAlloc s"
proof -
  obtain k where k: "k \<le> 63" "hs_histogramAlloc s = 2 ^ k" "unat (hs_histogramMax s) < 2 ^ k"
    using assms by (auto simp: capacity_inv_def)
  show ?thesis using k by (simp add: word_less_nat_alt p2_unat)
qed

lemma add_all_new_bounds:
  "add_all ps histogramStatistics_new = Some s \<Longrightarrow> hs_histogramMax s < hs_histogramAlloc s"
  using add_all_capacity_inv[OF _ capacity_inv_new] capacity_inv_bounds by blast


lemma add_all_no_return:
  "capacity_inv s \<Longrightarrow> \<exists>(d, c) \<in> set ps. 2 ^ 63 \<le> unat d \<Longrightarrow> add_all ps s = None"
proof (induction ps arbitrary: s)
  case Nil
  then show ?case by simp
next
  case (Cons p ps)
  obtain d c where p: "p = (d, c)" by (cases p)
  show ?case
  proof (cases "2 ^ 63 \<le> unat d")
    case True
    then show ?thesis using add_no_return[OF Cons.prems(1)] by (simp add: p)
  next
    case False
    then have d: "unat d < 2 ^ 63" by simp
    obtain s1 where s1: "add d c s = Some s1" "capacity_inv s1"
      using add_closed[OF Cons.prems(1) d] by blast
    have "\<exists>(d, c) \<in> set ps. 2 ^ 63 \<le> unat d" using Cons.prems(2) False by (auto simp: p)
    then have "add_all ps s1 = None" using Cons.IH[OF s1(2)] by simp
    then show ?thesis using s1(1) by (simp add: p)
  qed
qed

text \<open>
  Claim C9. Let \<open>ps\<close> be any list of (value, count) pairs with non-zero counts, in any
  order and with any grouping of equal values, and let \<open>us\<close> list the same samples one
  by one in any order. Calling \<open>add\<close> for the pairs of \<open>ps\<close> on a new object and calling
  \<open>add(v, 1)\<close> for the values of \<open>us\<close> on a new object have the same outcome: either
  neither sequence returns (a value of \<open>2^63\<close> or more occurs), or both return and
  \<^verbatim>\<open>finalizeData\<close> then yields the same mean, stddev, mode, median and MAD; when all
  values are below \<open>2^63\<close> they do return and the statistics exist.
\<close>

theorem add_order_grouping_invariant:
  assumes nz: "\<forall>(d, c) \<in> set ps. c \<noteq> 0" and us: "mset us = samples ps"
  shows "map_option statistics (add_all ps histogramStatistics_new) =
           map_option statistics (add_all (map (\<lambda>v. (v, 1)) us) histogramStatistics_new) \<and>
         ((\<forall>v \<in> set us. unat v < 2 ^ 63) \<longrightarrow>
            (\<exists>s r. add_all ps histogramStatistics_new = Some s \<and> statistics s = Inr r))"
proof (cases "\<forall>v \<in> set us. unat v < 2 ^ 63")
  case True
  have "set us = set_mset (samples ps)" using us by (metis set_mset_mset)
  then have su: "set us = fst ` set ps" using set_mset_samples[OF nz] by simp
  have "\<forall>(d, c) \<in> set ps. c \<noteq> 0 \<and> unat d < 2 ^ 63"
    using nz True su by fastforce
  from add_all_same_statistics[OF this us] show ?thesis by auto
next
  case False
  then obtain v where v: "v \<in> set us" "2 ^ 63 \<le> unat v" by (auto simp: not_less)
  have "set us = set_mset (samples ps)" using us by (metis set_mset_mset)
  then have su: "set us = fst ` set ps" using set_mset_samples[OF nz] by simp
  have "\<exists>(d, c) \<in> set ps. 2 ^ 63 \<le> unat d" using v su by force
  then have n1: "add_all ps histogramStatistics_new = None"
    by (rule add_all_no_return[OF capacity_inv_new])
  have "\<exists>(d, c) \<in> set (map (\<lambda>v. (v, 1 :: 32 word)) us). 2 ^ 63 \<le> unat d" using v by auto
  then have n2: "add_all (map (\<lambda>v. (v, 1)) us) histogramStatistics_new = None"
    by (rule add_all_no_return[OF capacity_inv_new])
  show ?thesis using False n1 n2 by simp
qed

theorem add_order_grouping_invariant_witness:
  "\<exists>s1 s2 r. add_all [(5, 2), (3, 1)] histogramStatistics_new = Some s1 \<and>
       add_all [(5, 1), (3, 1), (5, 1)] histogramStatistics_new = Some s2 \<and>
       statistics s1 = Inr r \<and> statistics s2 = Inr r"
proof -
  have a: "\<forall>(d, c) \<in> set [(5 :: 64 word, 2), (3, 1 :: 32 word)]. c \<noteq> 0"
    by simp
  have r2: "replicate_mset 2 (5 :: 64 word) = {#5, 5#}" by (simp add: numeral_2_eq_2)
  have b: "mset [5, 3, 5] = samples [(5, 2), (3, 1)]"
    by (simp add: samples_def r2)
  have c: "\<forall>v \<in> set [5, 3, 5 :: 64 word]. unat v < 2 ^ 63" by simp
  from add_order_grouping_invariant[OF a b] c
  obtain s r where s: "add_all [(5, 2), (3, 1)] histogramStatistics_new = Some s"
      "statistics s = Inr r"
      and e: "map_option statistics (add_all [(5, 2), (3, 1)] histogramStatistics_new) =
           map_option statistics (add_all (map (\<lambda>v. (v, 1)) [5, 3, 5]) histogramStatistics_new)"
    by blast
  have m: "map (\<lambda>v. (v, 1)) [5, 3, 5 :: 64 word] = [(5, 1), (3, 1), (5, 1 :: 32 word)]" by simp
  have "map_option statistics (add_all [(5, 1), (3, 1), (5, 1)] histogramStatistics_new) = Some (Inr r)"
    using e unfolding m s(1) by (simp only: option.map s(2))
  then obtain s2 where "add_all [(5, 1), (3, 1), (5, 1)] histogramStatistics_new = Some s2"
      "statistics s2 = Inr r"
    by (auto simp del: add_all.simps)
  then show ?thesis using s by blast
qed

end
